theory Spec2Isabelle
  imports Complex_Main "HOL-Library.Sublist" "HOL-Library.List_Lexorder" "HOL-Library.Char_ord"
begin

section \<open>Trajectory execution manager: data\<close>

text \<open>
  The model follows \<^verbatim>\<open>trajectory_execution_manager.cpp\<close>. Times and durations
  (\<^verbatim>\<open>ros::Time\<close>, \<^verbatim>\<open>ros::Duration\<close>) count nanoseconds and are integers, in
  nanoseconds; their sums, differences and comparisons are exact (the 32-bit range of
  the seconds is not modelled). A controller handle is identified with the name of its
  controller. Calls made on handles and on the completion callback are recorded, in
  order, in the field \<open>calls\<close> of the manager state, so that what was sent and what was
  cancelled can be stated. Logging is left out.
\<close>

type_synonym nanoseconds = int

definition seconds :: "int \<Rightarrow> nanoseconds" where
  "seconds n = n * 1000000000"

datatype ExecutionStatus = UNKNOWN | RUNNING | SUCCEEDED | PREEMPTED | TIMED_OUT | ABORTED | FAILED

record JointTrajectoryPoint =
  positions :: "real list"
  velocities :: "real list"
  accelerations :: "real list"
  time_from_start :: nanoseconds

record JointTrajectory =
  stamp :: nanoseconds
  joint_names :: "string list"
  points :: "JointTrajectoryPoint list"

record MultiDOFJointTrajectoryPoint =
  poses :: "real list list"
  mdof_time_from_start :: nanoseconds

record MultiDOFJointTrajectory =
  mdof_stamp :: nanoseconds
  mdof_joint_names :: "string list"
  frame_ids :: "string list"
  child_frame_ids :: "string list"
  mdof_points :: "MultiDOFJointTrajectoryPoint list"

record RobotTrajectory =
  joint_trajectory :: JointTrajectory
  multi_dof_joint_trajectory :: MultiDOFJointTrajectory

record TrajectoryExecutionContext =
  controllers :: "string list"
  trajectory_parts :: "RobotTrajectory list"

text \<open>A call observed on a handle (by controller name) or on the completion callback.\<close>

datatype handle_call =
    SendTrajectory string nat
  | CancelExecution string
  | CompletionCallback ExecutionStatus

record manager_state =
  execution_complete :: bool
  last_execution_status :: ExecutionStatus
  current_context :: int
  active_handles :: "string list"
  time_index :: "nanoseconds list"
  trajectories :: "TrajectoryExecutionContext list"
  calls :: "handle_call list"

text \<open>
  What the collaborators answer while context \<open>c\<close> is executed:
  the result of \<^verbatim>\<open>ensureActiveControllers\<close>, whether another thread ran
  \<^verbatim>\<open>stopExecution\<close> before the flag is read (line 727, line 733, during a wait),
  what \<^verbatim>\<open>sendTrajectory\<close> does for part \<open>i\<close>, the clock, and what
  \<^verbatim>\<open>waitForExecution\<close> and \<^verbatim>\<open>getLastExecutionStatus\<close> return for handle \<open>i\<close>.
  The last field is the product of a \<^verbatim>\<open>ros::Duration\<close> and the \<^verbatim>\<open>double\<close> 1.1 (line 805):
  the operator of the ROS library converts the duration to a \<^verbatim>\<open>double\<close> number of
  seconds, multiplies, and converts the product back to nanoseconds.
\<close>

datatype send_result = SendOk | SendRefused | SendThrows

record wait_outcome =
  wait_returned :: bool
  stop_arrived :: bool
  clock_after :: nanoseconds
  handle_status :: ExecutionStatus

record world =
  ensure_active :: "nat \<Rightarrow> bool"
  stop_after_ensure :: "nat \<Rightarrow> bool"
  stop_before_lock :: "nat \<Rightarrow> bool"
  send_trajectory :: "nat \<Rightarrow> nat \<Rightarrow> send_result"
  time_now :: "nat \<Rightarrow> nanoseconds"
  wait_for_execution :: "nat \<Rightarrow> nat \<Rightarrow> wait_outcome"
  times_1_1 :: "nanoseconds \<Rightarrow> nanoseconds"

section \<open>Trajectory execution manager: stopping, sending, waiting\<close>

definition clear :: "manager_state \<Rightarrow> manager_state" where
  "clear s = s\<lparr>trajectories := []\<rparr>"

text \<open>
  A call either returns, or it is made by the worker thread and comes to
  \<^verbatim>\<open>execution_thread_->join()\<close>: the worker then waits for its own end (or, with a
  thread library that detects this, the call throws and nothing in these functions
  catches it). In both cases the statements after the call are not executed;
  \<open>Joins_itself s\<close> keeps the manager state at that point.
\<close>

datatype 'a run = Returns 'a | Joins_itself manager_state

datatype thread = Worker | Other

text \<open>The section of \<^verbatim>\<open>stopExecution\<close> under the lock (lines 627-638).\<close>

definition stop_locked :: "manager_state \<Rightarrow> manager_state" where
  "stop_locked s =
     (let s1 = s\<lparr>execution_complete := True\<rparr>;
          s2 = s1\<lparr>calls := calls s1 @ map CancelExecution (active_handles s1)\<rparr>
      in s2\<lparr>last_execution_status := PREEMPTED\<rparr>)"

text \<open>
  \<^verbatim>\<open>stopExecution\<close> (lines 618-658), called by the worker thread or by another thread
  while the worker runs. Both branches join the worker (lines 643 and 653). Another
  thread returns from the join once the worker has ended; the state given for it is the
  one it leaves behind, as far as these lines change it.
\<close>

definition stopExecution :: "thread \<Rightarrow> bool \<Rightarrow> manager_state \<Rightarrow> manager_state run" where
  "stopExecution caller auto_clear s =
     (if \<not> execution_complete s then
        (let s3 = stop_locked s
         in if caller = Worker then Joins_itself s3
            else Returns (if auto_clear then clear s3 else s3))
      else if caller = Worker then Joins_itself s
      else Returns s)"

text \<open>
  A stop requested by another thread, as far as the worker sees it: the section under
  the lock. The other thread then waits in the join for the worker to end.
\<close>

definition external_stop :: "bool \<Rightarrow> manager_state \<Rightarrow> manager_state" where
  "external_stop arrived s = (if arrived \<and> \<not> execution_complete s then stop_locked s else s)"

text \<open>
  The loop of lines 743-773 over the parts \<open>i, i+1, ...\<close> still to send. A send that
  returns false and a send that throws both leave \<^verbatim>\<open>ok\<close> false.
\<close>

fun send_parts :: "world \<Rightarrow> nat \<Rightarrow> nat list \<Rightarrow> manager_state \<Rightarrow> bool \<times> manager_state" where
  "send_parts w c [] s = (True, s)"
| "send_parts w c (i # rest) s =
     (let s1 = s\<lparr>calls := calls s @ [SendTrajectory (active_handles s ! i) i]\<rparr>;
          ok = (send_trajectory w c i = SendOk)
      in if \<not> ok then
           (let s2 = s1\<lparr>calls := calls s1 @ map (\<lambda>j. CancelExecution (active_handles s1 ! j)) [0..<i]\<rparr>
            in (False, s2\<lparr>active_handles := [], current_context := -1,
                          last_execution_status := ABORTED\<rparr>))
         else send_parts w c rest s1)"

text \<open>Lines 783-793: the expected duration of one part.\<close>

definition part_duration :: "nanoseconds \<Rightarrow> RobotTrajectory \<Rightarrow> nanoseconds" where
  "part_duration current_time p =
     (if points (joint_trajectory p) \<noteq> [] then
        (let d0 = (if stamp (joint_trajectory p) > current_time
                   then stamp (joint_trajectory p) - current_time else 0);
             d1 = (if mdof_stamp (multi_dof_joint_trajectory p) > current_time
                   then max d0 (mdof_stamp (multi_dof_joint_trajectory p) - current_time) else d0)
         in d1 + max (if points (joint_trajectory p) = [] then 0
                      else time_from_start (last (points (joint_trajectory p))))
                     (if mdof_points (multi_dof_joint_trajectory p) = [] then 0
                      else mdof_time_from_start (last (mdof_points (multi_dof_joint_trajectory p)))))
      else 0)"

text \<open>
  Lines 779-805: the maximum over the parts, then its product with 1.1, as the given
  operator computes it, and half a second more.
\<close>

definition expected_trajectory_duration ::
  "(nanoseconds \<Rightarrow> nanoseconds) \<Rightarrow> nanoseconds \<Rightarrow> RobotTrajectory list \<Rightarrow> nanoseconds" where
  "expected_trajectory_duration scale current_time parts =
     scale (foldl (\<lambda>e p. max (part_duration current_time p) e) 0 parts) + 500000000"

definition nr_points :: "RobotTrajectory \<Rightarrow> nat" where
  "nr_points p = max (length (points (joint_trajectory p)))
                     (length (mdof_points (multi_dof_joint_trajectory p)))"

text \<open>Lines 780-801: the index of the part with most points, \<open>-1\<close> when there is none.\<close>

definition longest_part :: "RobotTrajectory list \<Rightarrow> int" where
  "longest_part parts =
     foldl (\<lambda>lp i. if points (joint_trajectory (parts ! i)) \<noteq> [] \<and>
                      (lp < 0 \<or> nr_points (parts ! i) > nr_points (parts ! nat lp))
                   then int i else lp)
           (-1) [0..<length parts]"

text \<open>Lines 808-829: the expected absolute time of every point of the longest part.\<close>

definition expected_times :: "nanoseconds \<Rightarrow> RobotTrajectory list \<Rightarrow> nanoseconds list" where
  "expected_times current_time parts =
     (let lp = longest_part parts in
      if lp \<ge> 0 then
        (let p = parts ! nat lp in
         if length (points (joint_trajectory p)) \<ge> length (mdof_points (multi_dof_joint_trajectory p))
         then (let d = (if stamp (joint_trajectory p) > current_time
                        then stamp (joint_trajectory p) - current_time else 0)
               in map (\<lambda>pt. current_time + d + time_from_start pt) (points (joint_trajectory p)))
         else (let d = (if mdof_stamp (multi_dof_joint_trajectory p) > current_time
                        then mdof_stamp (multi_dof_joint_trajectory p) - current_time else 0)
               in map (\<lambda>pt. current_time + d + mdof_time_from_start pt)
                      (mdof_points (multi_dof_joint_trajectory p))))
      else [])"

text \<open>
  Lines 833-841: the test of one handle's wait against the budget. The worker's call of
  \<^verbatim>\<open>stopExecution\<close> is the one of line 838; line 840 is reached only if it returns.
\<close>

definition check_timeout ::
  "nanoseconds \<Rightarrow> nanoseconds \<Rightarrow> wait_outcome \<Rightarrow> manager_state \<Rightarrow> manager_state run" where
  "check_timeout budget current_time out s =
     (if \<not> wait_returned out \<and> \<not> execution_complete s \<and> clock_after out - current_time > budget
      then (case stopExecution Worker False s of
              Returns s' \<Rightarrow> Returns (s'\<lparr>last_execution_status := TIMED_OUT\<rparr>)
            | Joins_itself s' \<Rightarrow> Joins_itself s')
      else Returns s)"

text \<open>
  The loop of lines 831-854 over the handles \<open>i, i+1, ...\<close> still to wait for;
  \<open>result\<close> is the local of the same name.
\<close>

fun wait_handles ::
  "world \<Rightarrow> nat \<Rightarrow> nanoseconds \<Rightarrow> nanoseconds \<Rightarrow> nat list \<Rightarrow> manager_state \<Rightarrow> bool \<Rightarrow>
     (bool \<times> manager_state) run" where
  "wait_handles w c budget current_time [] s result = Returns (result, s)"
| "wait_handles w c budget current_time (i # rest) s result =
     (let out = wait_for_execution w c i;
          s1 = external_stop (stop_arrived out) s
      in case check_timeout budget current_time out s1 of
           Joins_itself s' \<Rightarrow> Joins_itself s'
         | Returns s2 \<Rightarrow>
             if execution_complete s2 then Returns (False, s2)
             else if handle_status out \<noteq> SUCCEEDED
             then wait_handles w c budget current_time rest
                    (s2\<lparr>last_execution_status := handle_status out\<rparr>) False
             else wait_handles w c budget current_time rest s2 result)"

text \<open>
  \<^verbatim>\<open>executePart\<close> (lines 719-871). \<open>None\<close> stands for an access outside a vector:
  a context index that does not exist, or more parts than controllers.
\<close>

definition executePart :: "world \<Rightarrow> nat \<Rightarrow> manager_state \<Rightarrow> (bool \<times> manager_state) run option" where
  "executePart w part_index s =
     (if part_index \<ge> length (trajectories s) then None
      else
        (let context = trajectories s ! part_index in
         if ensure_active w part_index then
           (let s0 = external_stop (stop_after_ensure w part_index) s in
            if execution_complete s0 then Some (Returns (False, s0))
            else
              (let s1 = external_stop (stop_before_lock w part_index) s0 in
               if \<not> execution_complete s1 \<and>
                  length (trajectory_parts context) > length (controllers context) then None
               else
                 (let (sent, s2) =
                        (if \<not> execution_complete s1 then
                           send_parts w part_index [0..<length (trajectory_parts context)]
                             (s1\<lparr>current_context := int part_index,
                                 active_handles := controllers context\<rparr>)
                         else (True, s1));
                      handles = (if \<not> execution_complete s1
                                 then [0..<length (controllers context)] else [])
                  in if \<not> sent then Some (Returns (False, s2))
                     else
                       (let current_time = time_now w part_index;
                            budget = expected_trajectory_duration (times_1_1 w) current_time
                                       (trajectory_parts context);
                            s3 = s2\<lparr>time_index := time_index s2 @
                                       expected_times current_time (trajectory_parts context)\<rparr>
                        in case wait_handles w part_index budget current_time handles s3 True of
                             Joins_itself s' \<Rightarrow> Some (Joins_itself s')
                           | Returns (result, s4) \<Rightarrow>
                               Some (Returns (result, s4\<lparr>active_handles := [], time_index := [],
                                                        current_context := -1\<rparr>))))))
         else Some (Returns (False, s))))"

text \<open>The loop of lines 698-700 over the contexts still to execute.\<close>

fun run_contexts :: "world \<Rightarrow> nat list \<Rightarrow> manager_state \<Rightarrow> manager_state run option" where
  "run_contexts w [] s = Some (Returns s)"
| "run_contexts w (i # rest) s =
     (case executePart w i s of
        None \<Rightarrow> None
      | Some (Joins_itself s') \<Rightarrow> Some (Joins_itself s')
      | Some (Returns (ok, s')) \<Rightarrow>
          if \<not> ok \<or> execution_complete s' then Some (Returns s') else run_contexts w rest s')"

text \<open>
  \<^verbatim>\<open>executeThread\<close> (lines 683-717); \<open>callback\<close> says whether a completion callback
  was given.
\<close>

definition executeThread :: "world \<Rightarrow> bool \<Rightarrow> bool \<Rightarrow> manager_state \<Rightarrow> manager_state run option" where
  "executeThread w callback auto_clear s =
     (if execution_complete s then Some (Returns (s\<lparr>last_execution_status := ABORTED\<rparr>))
      else
        (case run_contexts w [0..<length (trajectories s)] (s\<lparr>last_execution_status := SUCCEEDED\<rparr>) of
           None \<Rightarrow> None
         | Some (Joins_itself s') \<Rightarrow> Some (Joins_itself s')
         | Some (Returns s1) \<Rightarrow>
             (let s2 = (if auto_clear then clear s1 else s1);
                  s3 = s2\<lparr>execution_complete := True\<rparr>
              in Some (Returns (if callback
                       then s3\<lparr>calls := calls s3 @ [CompletionCallback (last_execution_status s3)]\<rparr>
                       else s3)))))"

section \<open>Concrete data used by the examples\<close>

definition pt :: "nanoseconds \<Rightarrow> JointTrajectoryPoint" where
  "pt t = \<lparr>positions = [0], velocities = [], accelerations = [], time_from_start = t\<rparr>"

definition no_mdof :: MultiDOFJointTrajectory where
  "no_mdof = \<lparr>mdof_stamp = 0, mdof_joint_names = [], frame_ids = [], child_frame_ids = [],
              mdof_points = []\<rparr>"

definition part_at :: "nanoseconds \<Rightarrow> string \<Rightarrow> nanoseconds list \<Rightarrow> RobotTrajectory" where
  "part_at st j ts =
     \<lparr>joint_trajectory = \<lparr>stamp = st, joint_names = [j], points = map pt ts\<rparr>,
      multi_dof_joint_trajectory = no_mdof\<rparr>"

definition ctx3 :: TrajectoryExecutionContext where
  "ctx3 = \<lparr>controllers = [''arm'', ''head'', ''base''],
           trajectory_parts = [part_at 0 ''j1'' [seconds 1, seconds 2],
                               part_at 0 ''j2'' [seconds 1, seconds 2],
                               part_at 0 ''j3'' [seconds 1, seconds 2]]\<rparr>"

definition idle_state :: "TrajectoryExecutionContext list \<Rightarrow> manager_state" where
  "idle_state q = \<lparr>execution_complete = False, last_execution_status = SUCCEEDED,
                   current_context = -1, active_handles = [], time_index = [],
                   trajectories = q, calls = []\<rparr>"

text \<open>
  The product with 1.1 in the examples. For the durations of 2 s and 3 s that occur
  there, the \<^verbatim>\<open>double\<close> products are 2.2 and 3.3000000000000003, which convert to
  2200000000 and 3300000000 nanoseconds.
\<close>

definition eleven_tenths :: "nanoseconds \<Rightarrow> nanoseconds" where
  "eleven_tenths d = d * 11 div 10"

definition calm_world :: world where
  "calm_world = \<lparr>ensure_active = (\<lambda>c. True), stop_after_ensure = (\<lambda>c. False),
                 stop_before_lock = (\<lambda>c. False), send_trajectory = (\<lambda>c i. SendOk),
                 time_now = (\<lambda>c. 0),
                 wait_for_execution = (\<lambda>c i. \<lparr>wait_returned = True, stop_arrived = False,
                                               clock_after = seconds 2, handle_status = SUCCEEDED\<rparr>),
                 times_1_1 = eleven_tenths\<rparr>"

definition fail_at :: "nat \<Rightarrow> world" where
  "fail_at k = calm_world\<lparr>send_trajectory := (\<lambda>c i. if i = k then SendThrows else SendOk)\<rparr>"





section \<open>The timeout budget, as stated and as computed\<close>






section \<open>Controller registry and controller selection\<close>

text \<open>
  \<^verbatim>\<open>known_controllers_\<close> is a map from controller names to
  \<^verbatim>\<open>ControllerInformation\<close>; the joint set and the set of overlapping controllers are
  sets of names. \<^verbatim>\<open>known_controllers_[name]\<close> yields a default-constructed entry for
  a name that is not in the map. The registry is read as it stands while controllers are
  selected: the refresh of a stale controller state from the controller manager
  (\<^verbatim>\<open>updateControllerState\<close>) is not modelled.
\<close>

record ControllerState =
  st_loaded :: bool
  st_active :: bool
  st_default :: bool

record ControllerInformation =
  ci_name :: string
  joints :: "string set"
  overlapping_controllers :: "string set"
  ci_state :: ControllerState
  last_update :: nanoseconds

type_synonym registry = "string \<rightharpoonup> ControllerInformation"

definition default_information :: ControllerInformation where
  "default_information =
     \<lparr>ci_name = [], joints = {}, overlapping_controllers = {},
      ci_state = \<lparr>st_loaded = False, st_active = False, st_default = False\<rparr>, last_update = 0\<rparr>"

definition known :: "registry \<Rightarrow> string \<Rightarrow> ControllerInformation" where
  "known r c = (case r c of None \<Rightarrow> default_information | Some ci \<Rightarrow> ci)"

text \<open>\<^verbatim>\<open>checkControllerCombination\<close> (lines 241-264).\<close>

definition checkControllerCombination :: "registry \<Rightarrow> string list \<Rightarrow> string set \<Rightarrow> bool" where
  "checkControllerCombination r selected actuated_joints =
     (actuated_joints \<subseteq> (\<Union>c \<in> set selected. joints (known r c)))"

text \<open>Lines 281-287: does the candidate overlap a controller selected so far?\<close>

definition overlaps_selected :: "registry \<Rightarrow> string \<Rightarrow> string list \<Rightarrow> bool" where
  "overlaps_selected r c selected =
     (\<exists>s \<in> set selected. s \<in> overlapping_controllers (known r c))"

text \<open>
  \<^verbatim>\<open>generateControllerCombination\<close> (lines 266-294). The third argument is the part of
  \<^verbatim>\<open>available_controllers\<close> from \<^verbatim>\<open>start_index\<close> on; the result lists what the call
  appends to \<^verbatim>\<open>selected_options\<close>, in that order.
\<close>

fun generateControllerCombination ::
  "registry \<Rightarrow> nat \<Rightarrow> string list \<Rightarrow> string list \<Rightarrow> string set \<Rightarrow> string list list" where
  "generateControllerCombination r controller_count [] selected actuated_joints =
     (if length selected = controller_count
      then (if checkControllerCombination r selected actuated_joints then [selected] else [])
      else [])"
| "generateControllerCombination r controller_count (c # rest) selected actuated_joints =
     (if length selected = controller_count
      then (if checkControllerCombination r selected actuated_joints then [selected] else [])
      else (if overlaps_selected r c selected then []
            else generateControllerCombination r controller_count rest (selected @ [c]) actuated_joints)
           @ generateControllerCombination r controller_count rest selected actuated_joints)"

text \<open>The three counts of lines 361-375 and the order of lines 296-325.\<close>

definition nrdefault :: "registry \<Rightarrow> string list \<Rightarrow> nat" where
  "nrdefault r option = length (filter (\<lambda>c. st_default (ci_state (known r c))) option)"

definition nractive :: "registry \<Rightarrow> string list \<Rightarrow> nat" where
  "nractive r option = length (filter (\<lambda>c. st_active (ci_state (known r c))) option)"

definition nrjoints :: "registry \<Rightarrow> string list \<Rightarrow> nat" where
  "nrjoints r option = sum_list (map (\<lambda>c. card (joints (known r c))) option)"

definition OrderPotentialControllerCombination ::
  "registry \<Rightarrow> string list \<Rightarrow> string list \<Rightarrow> bool" where
  "OrderPotentialControllerCombination r a b =
     (if nrdefault r a > nrdefault r b then True
      else if nrdefault r a < nrdefault r b then False
      else if nrjoints r a < nrjoints r b then True
      else if nrjoints r a > nrjoints r b then False
      else if nractive r a < nractive r b then True
      else False)"

text \<open>
  \<^verbatim>\<open>std::sort\<close> with a comparison, as an insertion sort that keeps the order of
  elements the comparison does not separate (\<^verbatim>\<open>std::sort\<close> leaves that order open).
\<close>

fun insert_sorted :: "('a \<Rightarrow> 'a \<Rightarrow> bool) \<Rightarrow> 'a \<Rightarrow> 'a list \<Rightarrow> 'a list" where
  "insert_sorted lt x [] = [x]"
| "insert_sorted lt x (y # ys) = (if lt y x then y # insert_sorted lt x ys else x # y # ys)"

definition std_sort :: "('a \<Rightarrow> 'a \<Rightarrow> bool) \<Rightarrow> 'a list \<Rightarrow> 'a list" where
  "std_sort lt xs = foldr (insert_sorted lt) xs []"

text \<open>\<^verbatim>\<open>areControllersActive\<close> (lines 404-415).\<close>

definition areControllersActive :: "registry \<Rightarrow> string list \<Rightarrow> bool" where
  "areControllersActive r cs =
     (\<forall>c \<in> set cs. case r c of None \<Rightarrow> False | Some ci \<Rightarrow> st_active (ci_state ci))"

text \<open>\<^verbatim>\<open>findControllers\<close> (lines 327-401); \<open>None\<close> is the result false.\<close>

definition findControllers ::
  "registry \<Rightarrow> bool \<Rightarrow> string set \<Rightarrow> nat \<Rightarrow> string list \<Rightarrow> string list option" where
  "findControllers r manage_controllers actuated_joints controller_count available_controllers =
     (let selected_options =
            generateControllerCombination r controller_count available_controllers [] actuated_joints
      in if selected_options = [] then None
         else if length selected_options = 1 then Some (selected_options ! 0)
         else
           (let bijection = std_sort (\<lambda>a b. OrderPotentialControllerCombination r
                                               (selected_options ! a) (selected_options ! b))
                                     [0..<length selected_options]
            in if \<not> manage_controllers then
                 (case find (\<lambda>i. areControllersActive r (selected_options ! i)) bijection of
                    Some i \<Rightarrow> Some (selected_options ! i)
                  | None \<Rightarrow> Some (selected_options ! (bijection ! 0)))
               else Some (selected_options ! (bijection ! 0))))"

text \<open>The inner loop of \<^verbatim>\<open>selectControllers\<close> (lines 426-434) over the sizes still to try.\<close>

fun other_option ::
  "registry \<Rightarrow> bool \<Rightarrow> string set \<Rightarrow> string list \<Rightarrow> nat list \<Rightarrow> string list option" where
  "other_option r manage_controllers actuated_joints available_controllers [] = None"
| "other_option r manage_controllers actuated_joints available_controllers (j # rest) =
     (case findControllers r manage_controllers actuated_joints j available_controllers of
        Some option \<Rightarrow>
          if areControllersActive r option then Some option
          else other_option r manage_controllers actuated_joints available_controllers rest
      | None \<Rightarrow> other_option r manage_controllers actuated_joints available_controllers rest)"

text \<open>The outer loop of \<^verbatim>\<open>selectControllers\<close> (lines 419-438) over the sizes still to try.\<close>

fun select_sizes ::
  "registry \<Rightarrow> bool \<Rightarrow> string set \<Rightarrow> string list \<Rightarrow> nat list \<Rightarrow> string list option" where
  "select_sizes r manage_controllers actuated_joints available_controllers [] = None"
| "select_sizes r manage_controllers actuated_joints available_controllers (i # rest) =
     (case findControllers r manage_controllers actuated_joints i available_controllers of
        Some selected \<Rightarrow>
          if \<not> manage_controllers \<and> \<not> areControllersActive r selected then
            (case other_option r manage_controllers actuated_joints available_controllers rest of
               Some option \<Rightarrow> Some option
             | None \<Rightarrow> Some selected)
          else Some selected
      | None \<Rightarrow> select_sizes r manage_controllers actuated_joints available_controllers rest)"

text \<open>\<^verbatim>\<open>selectControllers\<close> (lines 417-439).\<close>

definition selectControllers ::
  "registry \<Rightarrow> bool \<Rightarrow> string set \<Rightarrow> string list \<Rightarrow> string list option" where
  "selectControllers r manage_controllers actuated_joints available_controllers =
     select_sizes r manage_controllers actuated_joints available_controllers
       [1..<Suc (length available_controllers)]"

text \<open>
  The registry is consistent on a list of names when, as after
  \<^verbatim>\<open>reloadControllerInformation\<close> (lines 199-212), two different controllers overlap
  exactly when they share a joint.
\<close>

definition overlap_consistent :: "registry \<Rightarrow> string list \<Rightarrow> bool" where
  "overlap_consistent r cs =
     (\<forall>a \<in> set cs. \<forall>b \<in> set cs. a \<noteq> b \<longrightarrow>
        (b \<in> overlapping_controllers (known r a) \<longleftrightarrow> joints (known r a) \<inter> joints (known r b) \<noteq> {}))"

text \<open>What the claim asks of a selection: it covers the joints, and no two controllers share a joint.\<close>

definition covers :: "registry \<Rightarrow> string list \<Rightarrow> string set \<Rightarrow> bool" where
  "covers r S J = (J \<subseteq> (\<Union>c \<in> set S. joints (known r c)))"

definition joint_disjoint :: "registry \<Rightarrow> string list \<Rightarrow> bool" where
  "joint_disjoint r S =
     (\<forall>a \<in> set S. \<forall>b \<in> set S. a \<noteq> b \<longrightarrow> joints (known r a) \<inter> joints (known r b) = {})"

text \<open>
  The candidates \<open>T\<close>, taken in order after \<open>selected\<close>, each pass the overlap test
  of lines 281-289.
\<close>

fun compatible :: "registry \<Rightarrow> string list \<Rightarrow> string list \<Rightarrow> bool" where
  "compatible r selected [] = True"
| "compatible r selected (c # cs) =
     (\<not> overlaps_selected r c selected \<and> compatible r (selected @ [c]) cs)"


section \<open>Loading the controller registry\<close>

text \<open>
  \<^verbatim>\<open>reloadControllerInformation\<close> (lines 182-214), given the list of controller names
  and the joints of each as the controller manager reports them. The map is filled
  (lines 189-197), then every pair of different entries with a common joint is entered
  in the overlap sets of both (lines 199-212).
\<close>

definition new_information :: "string \<Rightarrow> string list \<Rightarrow> ControllerInformation" where
  "new_information n js = default_information\<lparr>ci_name := n, joints := set js\<rparr>"

fun load_controllers :: "(string \<Rightarrow> string list) \<Rightarrow> string list \<Rightarrow> registry \<Rightarrow> registry" where
  "load_controllers getControllerJoints [] r = r"
| "load_controllers getControllerJoints (n # names) r =
     load_controllers getControllerJoints names (r(n \<mapsto> new_information n (getControllerJoints n)))"

definition insert_overlapping :: "registry \<Rightarrow> string \<Rightarrow> string \<Rightarrow> registry" where
  "insert_overlapping r a b =
     (case r a of
        None \<Rightarrow> r
      | Some ci \<Rightarrow> r(a \<mapsto> ci\<lparr>overlapping_controllers := insert b (overlapping_controllers ci)\<rparr>))"

definition overlap_pair :: "registry \<Rightarrow> string \<times> string \<Rightarrow> registry" where
  "overlap_pair r p =
     (case p of (it, jt) \<Rightarrow>
        if it \<noteq> jt \<and> joints (known r it) \<inter> joints (known r jt) \<noteq> {}
        then insert_overlapping (insert_overlapping r it jt) jt it
        else r)"

definition reloadControllerInformation :: "string list \<Rightarrow> (string \<Rightarrow> string list) \<Rightarrow> registry" where
  "reloadControllerInformation names getControllerJoints =
     (let r = load_controllers getControllerJoints names Map.empty;
          keys = sorted_list_of_set (set names)
      in foldl overlap_pair r (List.product keys keys))"

text \<open>The update of a controller's state (lines 225-233) leaves joints and overlaps alone.\<close>

definition updateControllerState ::
  "registry \<Rightarrow> string \<Rightarrow> ControllerState \<Rightarrow> nanoseconds \<Rightarrow> registry" where
  "updateControllerState r c st now =
     (case r c of
        None \<Rightarrow> r
      | Some ci \<Rightarrow> r(c \<mapsto> ci\<lparr>ci_state := st, last_update := now\<rparr>))"

text \<open>
  A registry loaded from the controllers \<open>K\<close> with joints \<open>J\<close>: it knows exactly these
  controllers with these joints, and an overlap it records is one between two different
  known controllers that share a joint.
\<close>

definition loaded_from :: "string set \<Rightarrow> (string \<Rightarrow> string set) \<Rightarrow> registry \<Rightarrow> bool" where
  "loaded_from K J r =
     (dom r = K \<and> (\<forall>a. joints (known r a) = (if a \<in> K then J a else {})) \<and>
      (\<forall>a b. b \<in> overlapping_controllers (known r a) \<longrightarrow>
              a \<in> K \<and> b \<in> K \<and> a \<noteq> b \<and> J a \<inter> J b \<noteq> {}))"

text \<open>
  A registry for the examples: \<open>C\<close> drives both joints and is not active, \<open>A\<close> and
  \<open>B\<close> drive one joint each and are active. It is loaded by
  \<^verbatim>\<open>reloadControllerInformation\<close> and its states are then updated.
\<close>

definition info :: "string \<Rightarrow> string set \<Rightarrow> string set \<Rightarrow> bool \<Rightarrow> ControllerInformation" where
  "info n js ov act =
     \<lparr>ci_name = n, joints = js, overlapping_controllers = ov,
      ci_state = \<lparr>st_loaded = True, st_active = act, st_default = False\<rparr>, last_update = 0\<rparr>"

definition joints3 :: "string \<Rightarrow> string list" where
  "joints3 n = (if n = ''A'' then [''j1''] else if n = ''B'' then [''j2''] else [''j1'', ''j2''])"

definition running :: "bool \<Rightarrow> ControllerState" where
  "running act = \<lparr>st_loaded = True, st_active = act, st_default = False\<rparr>"

definition reg3 :: registry where
  "reg3 = updateControllerState
            (updateControllerState
               (updateControllerState (reloadControllerInformation [''A'', ''B'', ''C''] joints3)
                  ''A'' (running True) 0)
               ''B'' (running True) 0)
            ''C'' (running False) 0"

text \<open>The same registry once \<open>C\<close> is active too.\<close>

definition all_active3 :: registry where
  "all_active3 = updateControllerState reg3 ''C'' (running True) 0"

section \<open>Splitting a trajectory among controllers\<close>

text \<open>
  \<^verbatim>\<open>distributeTrajectory\<close> (lines 441-537). \<^verbatim>\<open>std::set_intersection\<close> of two
  \<^verbatim>\<open>std::set<std::string>\<close> yields the common names in increasing order. The result
  false of the function is \<open>Inl ControllerNotFound\<close>; a read outside a vector (a point
  with fewer values than the joint it is asked for) is \<open>Inl OutOfRange\<close>.
\<close>

datatype distribute_error = ControllerNotFound | OutOfRange

definition set_intersection :: "string set \<Rightarrow> string set \<Rightarrow> string list" where
  "set_intersection A B = sorted_list_of_set (A \<inter> B)"

text \<open>Lines 478-480 and 504-506: each name is mapped to its last position.\<close>

fun index_from :: "string list \<Rightarrow> nat \<Rightarrow> (string \<rightharpoonup> nat) \<Rightarrow> (string \<rightharpoonup> nat)" where
  "index_from [] j m = m"
| "index_from (n # ns) j m = index_from ns (Suc j) (m(n \<mapsto> j))"

definition bijection_of :: "string list \<Rightarrow> string list \<Rightarrow> nat list" where
  "bijection_of names jnames =
     map (\<lambda>n. case index_from names 0 Map.empty n of None \<Rightarrow> 0 | Some k \<Rightarrow> k) jnames"

definition project :: "nat list \<Rightarrow> 'a list \<Rightarrow> 'a list option" where
  "project perm xs =
     (if list_all (\<lambda>k. k < length xs) perm then Some (map (\<lambda>k. xs ! k) perm) else None)"

definition project_unless_empty :: "nat list \<Rightarrow> 'a list \<Rightarrow> 'a list option" where
  "project_unless_empty perm xs = (if xs = [] then Some [] else project perm xs)"

text \<open>Lines 513-531: one point of the part's joint trajectory.\<close>

definition joint_point :: "nat list \<Rightarrow> JointTrajectoryPoint \<Rightarrow> JointTrajectoryPoint option" where
  "joint_point perm p =
     (case project_unless_empty perm (positions p) of
        None \<Rightarrow> None
      | Some ps \<Rightarrow>
         (case project_unless_empty perm (velocities p) of
            None \<Rightarrow> None
          | Some vs \<Rightarrow>
             (case project_unless_empty perm (accelerations p) of
                None \<Rightarrow> None
              | Some as \<Rightarrow> Some \<lparr>positions = ps, velocities = vs, accelerations = as,
                                  time_from_start = time_from_start p\<rparr>)))"

text \<open>Lines 493-496: one point of the part's multi-DOF trajectory.\<close>

definition mdof_point ::
  "nat list \<Rightarrow> MultiDOFJointTrajectoryPoint \<Rightarrow> MultiDOFJointTrajectoryPoint option" where
  "mdof_point perm p =
     (case project perm (poses p) of
        None \<Rightarrow> None
      | Some qs \<Rightarrow> Some \<lparr>poses = qs, mdof_time_from_start = mdof_time_from_start p\<rparr>)"

definition empty_joint_trajectory :: JointTrajectory where
  "empty_joint_trajectory = \<lparr>stamp = 0, joint_names = [], points = []\<rparr>"

definition empty_mdof_trajectory :: MultiDOFJointTrajectory where
  "empty_mdof_trajectory =
     \<lparr>mdof_stamp = 0, mdof_joint_names = [], frame_ids = [], child_frame_ids = [], mdof_points = []\<rparr>"

definition empty_part :: RobotTrajectory where
  "empty_part = \<lparr>joint_trajectory = empty_joint_trajectory,
                 multi_dof_joint_trajectory = empty_mdof_trajectory\<rparr>"

text \<open>Lines 472-498.\<close>

definition mdof_part ::
  "MultiDOFJointTrajectory \<Rightarrow> string list \<Rightarrow> MultiDOFJointTrajectory option" where
  "mdof_part t intersect_mdof =
     (if intersect_mdof \<noteq> [] then
        (let jnames = intersect_mdof;
             perm = bijection_of (mdof_joint_names t) jnames
         in case those (map (mdof_point perm) (mdof_points t)) of
              None \<Rightarrow> None
            | Some pts \<Rightarrow>
                Some \<lparr>mdof_stamp = 0, mdof_joint_names = jnames,
                      frame_ids = map (\<lambda>k. if length (frame_ids t) > k then frame_ids t ! k else [])
                                      perm,
                      child_frame_ids =
                        map (\<lambda>k. if length (child_frame_ids t) > k then child_frame_ids t ! k else [])
                            perm,
                      mdof_points = pts\<rparr>)
      else Some empty_mdof_trajectory)"

text \<open>Lines 499-533.\<close>

definition joint_part :: "JointTrajectory \<Rightarrow> string list \<Rightarrow> JointTrajectory option" where
  "joint_part t intersect_single =
     (if intersect_single \<noteq> [] then
        (let jnames = intersect_single;
             perm = bijection_of (joint_names t) jnames
         in case those (map (joint_point perm) (points t)) of
              None \<Rightarrow> None
            | Some pts \<Rightarrow> Some \<lparr>stamp = stamp t, joint_names = jnames, points = pts\<rparr>)
      else Some empty_joint_trajectory)"

text \<open>The body of the loop of lines 453-535 for one controller that is known.\<close>

definition controller_part :: "ControllerInformation \<Rightarrow> RobotTrajectory \<Rightarrow> RobotTrajectory option" where
  "controller_part ci trajectory =
     (let intersect_mdof =
            set_intersection (joints ci) (set (mdof_joint_names (multi_dof_joint_trajectory trajectory)));
          intersect_single =
            set_intersection (joints ci) (set (joint_names (joint_trajectory trajectory)))
      in case mdof_part (multi_dof_joint_trajectory trajectory) intersect_mdof of
           None \<Rightarrow> None
         | Some m \<Rightarrow>
            (case joint_part (joint_trajectory trajectory) intersect_single of
               None \<Rightarrow> None
             | Some j \<Rightarrow> Some \<lparr>joint_trajectory = j, multi_dof_joint_trajectory = m\<rparr>))"

fun distributeTrajectory ::
  "registry \<Rightarrow> RobotTrajectory \<Rightarrow> string list \<Rightarrow> distribute_error + RobotTrajectory list" where
  "distributeTrajectory r trajectory [] = Inr []"
| "distributeTrajectory r trajectory (c # cs) =
     (case r c of
        None \<Rightarrow> Inl ControllerNotFound
      | Some ci \<Rightarrow>
         (case controller_part ci trajectory of
            None \<Rightarrow> Inl OutOfRange
          | Some p \<Rightarrow>
             (case distributeTrajectory r trajectory cs of
                Inl e \<Rightarrow> Inl e
              | Inr ps \<Rightarrow> Inr (p # ps))))"

text \<open>
  A trajectory message is well formed when every point has, for each kind of value,
  either none or one per joint name (section 3 of the specification).
\<close>

definition well_formed_trajectory :: "RobotTrajectory \<Rightarrow> bool" where
  "well_formed_trajectory t =
     ((\<forall>p \<in> set (points (joint_trajectory t)).
          (positions p = [] \<or> length (positions p) = length (joint_names (joint_trajectory t))) \<and>
          (velocities p = [] \<or> length (velocities p) = length (joint_names (joint_trajectory t))) \<and>
          (accelerations p = [] \<or> length (accelerations p) = length (joint_names (joint_trajectory t)))) \<and>
      (\<forall>p \<in> set (mdof_points (multi_dof_joint_trajectory t)).
          length (poses p) = length (mdof_joint_names (multi_dof_joint_trajectory t))))"

text \<open>
  What the split owes controller \<open>ci\<close> in its part \<open>p\<close> of trajectory \<open>t\<close>: the
  points and their times when the controller shares a joint with the trajectory, nothing
  when it does not.
\<close>

definition timestamps_kept :: "ControllerInformation \<Rightarrow> RobotTrajectory \<Rightarrow> RobotTrajectory \<Rightarrow> bool" where
  "timestamps_kept ci t p =
     ((joints ci \<inter> set (joint_names (joint_trajectory t)) \<noteq> {} \<longrightarrow>
         length (points (joint_trajectory p)) = length (points (joint_trajectory t)) \<and>
         (\<forall>j < length (points (joint_trajectory t)).
            time_from_start (points (joint_trajectory p) ! j) =
            time_from_start (points (joint_trajectory t) ! j))) \<and>
      (joints ci \<inter> set (mdof_joint_names (multi_dof_joint_trajectory t)) \<noteq> {} \<longrightarrow>
         length (mdof_points (multi_dof_joint_trajectory p)) =
           length (mdof_points (multi_dof_joint_trajectory t)) \<and>
         (\<forall>j < length (mdof_points (multi_dof_joint_trajectory t)).
            mdof_time_from_start (mdof_points (multi_dof_joint_trajectory p) ! j) =
            mdof_time_from_start (mdof_points (multi_dof_joint_trajectory t) ! j))) \<and>
      (joints ci \<inter> set (joint_names (joint_trajectory t)) = {} \<longrightarrow>
         joint_trajectory p = empty_joint_trajectory) \<and>
      (joints ci \<inter> set (mdof_joint_names (multi_dof_joint_trajectory t)) = {} \<longrightarrow>
         multi_dof_joint_trajectory p = empty_mdof_trajectory))"

text \<open>A trajectory for two joints with three points, and a registry with an arm and a gripper.\<close>

definition traj2 :: RobotTrajectory where
  "traj2 =
     \<lparr>joint_trajectory =
        \<lparr>stamp = 5000000000, joint_names = [''j2'', ''j1''],
         points = [\<lparr>positions = [0, 1], velocities = [], accelerations = [], time_from_start = 0\<rparr>,
                   \<lparr>positions = [2, 3], velocities = [], accelerations = [], time_from_start = 500000000\<rparr>,
                   \<lparr>positions = [4, 5], velocities = [], accelerations = [], time_from_start = 1000000000\<rparr>]\<rparr>,
      multi_dof_joint_trajectory = no_mdof\<rparr>"

definition reg2 :: registry where
  "reg2 = [''arm'' \<mapsto> info ''arm'' {''j1'', ''j2''} {} True,
           ''gripper'' \<mapsto> info ''gripper'' {''g''} {} True]"


section \<open>Double precision\<close>

text \<open>
  Joint angles and the joint step are of type \<^verbatim>\<open>double\<close>. A \<^verbatim>\<open>double\<close> is modelled by
  the real number it denotes, and \<open>round_to_double\<close> gives the \<^verbatim>\<open>double\<close> nearest to a
  real: 53 bits of significand, round to nearest, ties to the even significand. Overflow
  and subnormal numbers, far from the range of joint angles, are not modelled. The result
  of an arithmetic operation on \<^verbatim>\<open>double\<close>s is the rounded exact result.
\<close>

definition round_half_even :: "real \<Rightarrow> int" where
  "round_half_even x =
     (let f = \<lfloor>x\<rfloor>; r = x - of_int f
      in if r < 1 / 2 then f else if r > 1 / 2 then f + 1 else if even f then f else f + 1)"

text \<open>
  The binary exponent \<open>e\<close> of a positive number \<open>x\<close>, with \<open>2\<^sup>e \<le> x < 2\<^sup>e\<^sup>+\<^sup>1\<close>,
  found by doubling or halving \<open>x\<close> at most \<open>n\<close> times.
\<close>

fun binade_from :: "nat \<Rightarrow> real \<Rightarrow> int" where
  "binade_from 0 x = 0"
| "binade_from (Suc n) x =
     (if x < 1 then binade_from n (2 * x) - 1
      else if 2 \<le> x then binade_from n (x / 2) + 1
      else 0)"

definition round_to_double :: "real \<Rightarrow> real" where
  "round_to_double x =
     (if x = 0 then 0
      else (let e = binade_from 1100 \<bar>x\<bar>
            in of_int (round_half_even (x * power_int 2 (52 - e))) * power_int 2 (e - 52)))"

section \<open>Search environment: state table\<close>

text \<open>
  The model follows \<^verbatim>\<open>environment_chain3d.cpp\<close>. The functions of that file copy and
  compare joint angles; all arithmetic on them is done by the collaborators below. A
  pointer to a hash entry is modelled by the entry it points to: entries are never
  changed once created, and each has its own \<open>stateID\<close>. Statistics, timing and the
  diagnostic \<^verbatim>\<open>closest_to_goal_\<close> are left out, and so is the 3D breadth-first search,
  which none of the functions below reads.
\<close>

record EnvChain3DHashEntry =
  stateID :: int
  coord :: "int list"
  angles :: "real list"
  xyz :: "int \<times> int \<times> int"
  action :: int

record EnvChain3DPlanningData =
  state_ID_to_coord_table :: "EnvChain3DHashEntry list"
  coord_to_state_ID_table :: "int list \<rightharpoonup> EnvChain3DHashEntry"
  goal_hash_entry :: "EnvChain3DHashEntry option"
  start_hash_entry :: "EnvChain3DHashEntry option"

definition empty_planning_data :: EnvChain3DPlanningData where
  "empty_planning_data =
     \<lparr>state_ID_to_coord_table = [], coord_to_state_ID_table = Map.empty,
      goal_hash_entry = None, start_hash_entry = None\<rparr>"

text \<open>
  Modelled from the spec: \<^verbatim>\<open>EnvChain3DPlanningData::addHashEntry\<close> is declared in a
  header that is not among the sources. Section 4.3: it appends a new entry, assigns
  \<open>stateID\<close> = current size, stores the keyed mapping, and returns the entry. It does
  not look the coordinate up: the callers do (lines 270 and 295-296). Storing under a
  coordinate that is already a key is taken to replace the entry kept under it; the
  table by state ID keeps both entries.
\<close>

definition addHashEntry ::
  "EnvChain3DPlanningData \<Rightarrow> int list \<Rightarrow> real list \<Rightarrow> int \<times> int \<times> int \<Rightarrow> int \<Rightarrow>
     EnvChain3DHashEntry \<times> EnvChain3DPlanningData" where
  "addHashEntry pd c a v act =
     (let new_hash_entry =
            \<lparr>stateID = int (length (state_ID_to_coord_table pd)), coord = c, angles = a,
             xyz = v, action = act\<rparr>
      in (new_hash_entry,
          pd\<lparr>state_ID_to_coord_table := state_ID_to_coord_table pd @ [new_hash_entry],
             coord_to_state_ID_table := (coord_to_state_ID_table pd)(c \<mapsto> new_hash_entry)\<rparr>))"

text \<open>
  Modelled from the spec: \<^verbatim>\<open>EnvChain3DPlanningData::getHashEntry\<close> is declared in the
  same header. Section 4.3: \<open>lookup(coord)\<close> returns the entry or nothing; the key is
  the coordinate alone.
\<close>

definition getHashEntry ::
  "EnvChain3DPlanningData \<Rightarrow> int list \<Rightarrow> int \<Rightarrow> EnvChain3DHashEntry option" where
  "getHashEntry pd c act = coord_to_state_ID_table pd c"

definition SizeofCreatedEnv :: "EnvChain3DPlanningData \<Rightarrow> int" where
  "SizeofCreatedEnv pd = int (length (state_ID_to_coord_table pd))"

section \<open>Search environment: collaborators\<close>

text \<open>
  What the functions of \<^verbatim>\<open>environment_chain3d.cpp\<close> call but do not define:
  \<^verbatim>\<open>joint_motion_wrappers_[i]->getIntegerDistance\<close>, as a function of the joint index;
  \<^verbatim>\<open>possible_actions_[i]->generateSuccessorState\<close>, \<open>None\<close> when it returns false;
  \<^verbatim>\<open>convertJointAnglesToCoord\<close>; the collision check of the robot at given joint
  angles; and the voxel of the tip link at given joint angles, \<open>None\<close> when
  \<^verbatim>\<open>getGridXYZInt\<close> returns false.
\<close>

record environment =
  getIntegerDistance :: "nat \<Rightarrow> real \<Rightarrow> real \<Rightarrow> real \<Rightarrow> int"
  possible_actions :: "(real list \<Rightarrow> real list option) list"
  convertJointAnglesToCoord :: "real list \<Rightarrow> int list"
  checkCollision :: "real list \<Rightarrow> bool"
  getGridXYZInt :: "real list \<Rightarrow> (int \<times> int \<times> int) option"

text \<open>Line 40: \<^verbatim>\<open>static const double LONG_RANGE_JOINT_DIFF=.1\<close>, the \<^verbatim>\<open>double\<close> nearest to 0.1.\<close>

definition LONG_RANGE_JOINT_DIFF :: real where
  "LONG_RANGE_JOINT_DIFF = round_to_double (1 / 10)"


definition INT_MAX :: int where
  "INT_MAX = 2147483647"

section \<open>Search environment: heuristic\<close>


text \<open>\<^verbatim>\<open>getJointDistanceIntegerMax\<close> (lines 574-589).\<close>

definition getJointDistanceIntegerMax :: "environment \<Rightarrow> real list \<Rightarrow> real list \<Rightarrow> int" where
  "getJointDistanceIntegerMax env angles1 angles2 =
     (if length angles1 \<noteq> length angles2 then INT_MAX
      else foldl (\<lambda>max_dist i.
                    (let dist = getIntegerDistance env i (angles1 ! i) (angles2 ! i)
                                  LONG_RANGE_JOINT_DIFF
                     in if dist > max_dist then dist else max_dist))
                 0 [0..<length angles1])"





section \<open>Search environment: successors\<close>

definition calculateCost :: "EnvChain3DHashEntry \<Rightarrow> EnvChain3DHashEntry \<Rightarrow> int" where
  "calculateCost HashEntry1 HashEntry2 = 1000"

text \<open>
  The loop of \<^verbatim>\<open>GetSuccs\<close> (lines 179-313) over the actions \<open>i, i+1, ...\<close> still to
  try; \<open>goal\<close> is the entry \<^verbatim>\<open>goal_hash_entry_\<close> points to, \<open>hash_entry\<close> the source
  entry, and the last argument the pairs pushed to \<^verbatim>\<open>succ_idv\<close> and \<^verbatim>\<open>cost_v\<close> so far.
\<close>

fun expand_actions ::
  "environment \<Rightarrow> EnvChain3DHashEntry \<Rightarrow> EnvChain3DHashEntry \<Rightarrow>
     (real list \<Rightarrow> real list option) list \<Rightarrow> nat \<Rightarrow> EnvChain3DPlanningData \<Rightarrow> (int \<times> int) list \<Rightarrow>
     EnvChain3DPlanningData \<times> (int \<times> int) list" where
  "expand_actions env goal hash_entry [] i pd succs = (pd, succs)"
| "expand_actions env goal hash_entry (act # rest) i pd succs =
     (case act (angles hash_entry) of
        None \<Rightarrow> expand_actions env goal hash_entry rest (Suc i) pd succs
      | Some succ_joint_angles \<Rightarrow>
         (let max_dist = getJointDistanceIntegerMax env succ_joint_angles (angles goal);
              succ_coord = convertJointAnglesToCoord env succ_joint_angles
          in if checkCollision env succ_joint_angles
             then expand_actions env goal hash_entry rest (Suc i) pd succs
             else
               (case getGridXYZInt env succ_joint_angles of
                  None \<Rightarrow> expand_actions env goal hash_entry rest (Suc i) pd succs
                | Some v \<Rightarrow>
                   (let found = (if max_dist = 1 then Some goal
                                 else getHashEntry pd succ_coord (int i));
                        (succ_hash_entry, pd') =
                          (case found of
                             None \<Rightarrow> addHashEntry pd succ_coord succ_joint_angles v (int i)
                           | Some e \<Rightarrow> (e, pd))
                    in expand_actions env goal hash_entry rest (Suc i) pd'
                         (succs @ [(stateID succ_hash_entry,
                                    calculateCost hash_entry succ_hash_entry)])))))"

text \<open>
  \<^verbatim>\<open>GetSuccs\<close> (lines 138-315). \<open>None\<close> stands for a null \<^verbatim>\<open>goal_hash_entry_\<close> and
  for a negative index into the table.
\<close>

definition GetSuccs ::
  "environment \<Rightarrow> EnvChain3DPlanningData \<Rightarrow> int \<Rightarrow>
     (EnvChain3DPlanningData \<times> (int \<times> int) list) option" where
  "GetSuccs env pd source_state_ID =
     (case goal_hash_entry pd of
        None \<Rightarrow> None
      | Some goal \<Rightarrow>
          if source_state_ID = stateID goal then Some (pd, [])
          else if source_state_ID > int (length (state_ID_to_coord_table pd)) - 1 then Some (pd, [])
          else if source_state_ID < 0 then None
          else Some (expand_actions env goal (state_ID_to_coord_table pd ! nat source_state_ID)
                       (possible_actions env) 0 pd []))"

section \<open>Search environment: setup\<close>

text \<open>
  What the planning scene and the request yield in \<^verbatim>\<open>setupForMotionPlan\<close>: whether the
  hybrid collision world and robot are there, whether the start state collides, whether
  the two distance fields have the same size, the joint values and the tip voxel of the
  start state, whether the goal state collides, and the joint values and the tip voxel
  of the goal state.
\<close>

record scene =
  has_collision_world :: bool
  has_collision_robot :: bool
  start_in_collision :: bool
  field_sizes_match :: bool
  start_joint_values :: "real list"
  start_xyz :: "(int \<times> int \<times> int) option"
  goal_in_collision :: bool
  goal_joint_values :: "real list"
  goal_xyz :: "(int \<times> int \<times> int) option"

datatype MoveItErrorCode =
    COLLISION_CHECKING_UNAVAILABLE
  | START_STATE_IN_COLLISION
  | INVALID_ROBOT_STATE
  | GOAL_IN_COLLISION
  | INVALID_GOAL_CONSTRAINTS

text \<open>
  \<^verbatim>\<open>setupForMotionPlan\<close> (lines 345-487): \<open>Some e\<close> is the result false with error
  code \<open>e\<close>, \<open>None\<close> the result true.
\<close>

definition setupForMotionPlan ::
  "environment \<Rightarrow> scene \<Rightarrow> EnvChain3DPlanningData \<Rightarrow> MoveItErrorCode option \<times> EnvChain3DPlanningData" where
  "setupForMotionPlan env sc pd =
     (if \<not> has_collision_world sc then (Some COLLISION_CHECKING_UNAVAILABLE, pd)
      else if \<not> has_collision_robot sc then (Some COLLISION_CHECKING_UNAVAILABLE, pd)
      else if start_in_collision sc then (Some START_STATE_IN_COLLISION, pd)
      else if \<not> field_sizes_match sc then (Some COLLISION_CHECKING_UNAVAILABLE, pd)
      else
        (let start_coords = convertJointAnglesToCoord env (start_joint_values sc) in
         case start_xyz sc of
           None \<Rightarrow> (Some INVALID_ROBOT_STATE, pd)
         | Some sv \<Rightarrow>
            (let (start_entry, pd1) = addHashEntry pd start_coords (start_joint_values sc) sv 0;
                 pd2 = pd1\<lparr>start_hash_entry := Some start_entry\<rparr>
             in if goal_in_collision sc then (Some GOAL_IN_COLLISION, pd2)
                else
                  (let goal_coords = convertJointAnglesToCoord env (goal_joint_values sc) in
                   case goal_xyz sc of
                     None \<Rightarrow> (Some INVALID_GOAL_CONSTRAINTS, pd2)
                   | Some gv \<Rightarrow>
                      (let (goal_entry, pd3) =
                             addHashEntry pd2 goal_coords (goal_joint_values sc) gv 0
                       in (None, pd3\<lparr>goal_hash_entry := Some goal_entry\<rparr>))))))"

text \<open>
  The planning data after a successful setup on a fresh environment and any number of
  calls of \<^verbatim>\<open>GetSuccs\<close>.
\<close>

inductive reachable :: "environment \<Rightarrow> scene \<Rightarrow> EnvChain3DPlanningData \<Rightarrow> bool"
  for env :: environment and sc :: scene where
  after_setup: "setupForMotionPlan env sc empty_planning_data = (None, pd) \<Longrightarrow> reachable env sc pd"
| after_GetSuccs: "reachable env sc pd \<Longrightarrow> GetSuccs env pd sid = Some (pd', succs) \<Longrightarrow>
                   reachable env sc pd'"

section \<open>An arm with bounded joints\<close>

text \<open>
  Modelled from the spec: \<^verbatim>\<open>JointMotionWrapper\<close>, \<^verbatim>\<open>SingleJointMotionPrimitive\<close> and
  \<^verbatim>\<open>convertJointAnglesToCoord\<close> are declared in headers that are not among the sources.
  Section 3, for a joint that is not continuous: the integer distance is the ceiling of
  the absolute difference over the step; a primitive advances one joint by its signed
  step and is rejected outside the limits; a joint angle is discretised to an integer
  bucket. Each operation on \<^verbatim>\<open>double\<close>s is rounded. The width of a bucket is
  \<^verbatim>\<open>angle_discretization_\<close>, which line 387 sets to the resolution of the distance field
  (the glossary of the specification has the joint step instead).
\<close>

definition bounded_integer_distance :: "real \<Rightarrow> real \<Rightarrow> real \<Rightarrow> int" where
  "bounded_integer_distance a b delta =
     \<lceil>round_to_double (\<bar>round_to_double (b - a)\<bar> / delta)\<rceil>"

definition single_joint_primitive ::
  "real \<Rightarrow> real \<Rightarrow> nat \<Rightarrow> real \<Rightarrow> real list \<Rightarrow> real list option" where
  "single_joint_primitive lower upper ind delta source =
     (if ind < length source \<and> lower \<le> round_to_double (source ! ind + delta) \<and>
         round_to_double (source ! ind + delta) \<le> upper
      then Some (source[ind := round_to_double (source ! ind + delta)]) else None)"

definition discretise :: "real \<Rightarrow> real \<Rightarrow> int" where
  "discretise angle_discretization a =
     \<lfloor>round_to_double (round_to_double (a / angle_discretization) + 1 / 2)\<rfloor>"

text \<open>
  \<^verbatim>\<open>setMotionPrimitives\<close> (lines 489-504): for each joint in turn the primitive with
  step \<^verbatim>\<open>LONG_RANGE_JOINT_DIFF\<close>, then the one with the opposite step.
\<close>

definition setMotionPrimitives :: "(real \<times> real) list \<Rightarrow> (real list \<Rightarrow> real list option) list" where
  "setMotionPrimitives limits =
     concat (map (\<lambda>i. [single_joint_primitive (fst (limits ! i)) (snd (limits ! i)) i
                          LONG_RANGE_JOINT_DIFF,
                        single_joint_primitive (fst (limits ! i)) (snd (limits ! i)) i
                          (- LONG_RANGE_JOINT_DIFF)])
                 [0..<length limits])"

text \<open>
  An arm whose joints are bounded by \<open>limits\<close>, whose angles are discretised with
  buckets of the given width, and which collides where \<open>blocked\<close> says.
\<close>

definition bounded_arm :: "(real \<times> real) list \<Rightarrow> real \<Rightarrow> (real list \<Rightarrow> bool) \<Rightarrow> environment" where
  "bounded_arm limits angle_discretization blocked =
     \<lparr>getIntegerDistance = (\<lambda>i. bounded_integer_distance),
      possible_actions = setMotionPrimitives limits,
      convertJointAnglesToCoord = map (discretise angle_discretization),
      checkCollision = blocked,
      getGridXYZInt = (\<lambda>a. Some (1, 1, 1))\<rparr>"

definition free_scene :: "real list \<Rightarrow> real list \<Rightarrow> scene" where
  "free_scene start goal =
     \<lparr>has_collision_world = True, has_collision_robot = True, start_in_collision = False,
      field_sizes_match = True, start_joint_values = start, start_xyz = Some (1, 1, 1),
      goal_in_collision = False, goal_joint_values = goal, goal_xyz = Some (1, 1, 1)\<rparr>"

definition entry :: "int \<Rightarrow> int list \<Rightarrow> real list \<Rightarrow> int \<Rightarrow> EnvChain3DHashEntry" where
  "entry sid c a act = \<lparr>stateID = sid, coord = c, angles = a, xyz = (1, 1, 1), action = act\<rparr>"

text \<open>What a caller reads from the table: the coordinates by state ID, and the two distinguished IDs.\<close>

definition coords_by_id :: "EnvChain3DPlanningData \<Rightarrow> int list list" where
  "coords_by_id pd = map coord (state_ID_to_coord_table pd)"

definition angles_by_id :: "EnvChain3DPlanningData \<Rightarrow> real list list" where
  "angles_by_id pd = map angles (state_ID_to_coord_table pd)"

definition start_and_goal_id :: "EnvChain3DPlanningData \<Rightarrow> int option \<times> int option" where
  "start_and_goal_id pd =
     (map_option stateID (start_hash_entry pd), map_option stateID (goal_hash_entry pd))"

definition successors :: "(EnvChain3DPlanningData \<times> (int \<times> int) list) option \<Rightarrow> (int \<times> int) list option" where
  "successors r = map_option snd r"

text \<open>Two joints bounded by -1 and 1, with buckets of the width of the joint step.\<close>

definition two_joints :: environment where
  "two_joints = bounded_arm [(-1, 1), (-1, 1)] LONG_RANGE_JOINT_DIFF (\<lambda>a. False)"

section \<open>Successor generation in the words of the specification\<close>

text \<open>
  Section 4.4: the candidates that survive primitive generation, the collision check and
  the voxel bounds, each with the index of its primitive and its voxel.
\<close>

definition survives ::
  "environment \<Rightarrow> real list \<Rightarrow> nat \<times> (real list \<Rightarrow> real list option) \<Rightarrow>
     (nat \<times> real list \<times> (int \<times> int \<times> int)) option" where
  "survives env source ia =
     (case snd ia source of
        None \<Rightarrow> None
      | Some candidate \<Rightarrow>
          if checkCollision env candidate then None
          else (case getGridXYZInt env candidate of
                  None \<Rightarrow> None
                | Some v \<Rightarrow> Some (fst ia, candidate, v)))"

definition surviving_candidates ::
  "environment \<Rightarrow> real list \<Rightarrow> nat \<Rightarrow> (real list \<Rightarrow> real list option) list \<Rightarrow>
     (nat \<times> real list \<times> (int \<times> int \<times> int)) list" where
  "surviving_candidates env source i acts = List.map_filter (survives env source) (enumerate i acts)"

text \<open>
  Section 4.4: \<open>maxInt\<close> is the maximum over the joints of the integer distance between
  the candidate's angle and the goal's.
\<close>

definition integer_distances :: "environment \<Rightarrow> real list \<Rightarrow> real list \<Rightarrow> int list" where
  "integer_distances env candidate goal_angles =
     map (\<lambda>j. getIntegerDistance env j (candidate ! j) (goal_angles ! j) LONG_RANGE_JOINT_DIFF)
         [0..<length candidate]"

definition maxInt_is_one :: "environment \<Rightarrow> real list \<Rightarrow> real list \<Rightarrow> bool" where
  "maxInt_is_one env candidate goal_angles =
     (integer_distances env candidate goal_angles \<noteq> [] \<and>
      Max (set (integer_distances env candidate goal_angles)) = 1)"

text \<open>
  Section 4.4: a surviving candidate with \<open>maxInt\<close> exactly 1 is identified with the
  goal; any other is looked up by its discretised coordinate and added only when the
  lookup misses. The edge cost is 1000.
\<close>

definition identify ::
  "environment \<Rightarrow> EnvChain3DHashEntry \<Rightarrow> EnvChain3DPlanningData \<times> (int \<times> int) list \<Rightarrow>
     nat \<times> real list \<times> (int \<times> int \<times> int) \<Rightarrow> EnvChain3DPlanningData \<times> (int \<times> int) list" where
  "identify env goal st cand =
     (case cand of (i, candidate, v) \<Rightarrow>
      (case st of (pd, succs) \<Rightarrow>
        if maxInt_is_one env candidate (angles goal)
        then (pd, succs @ [(stateID goal, 1000)])
        else (case getHashEntry pd (convertJointAnglesToCoord env candidate) (int i) of
                Some e \<Rightarrow> (pd, succs @ [(stateID e, 1000)])
              | None \<Rightarrow>
                 (case addHashEntry pd (convertJointAnglesToCoord env candidate) candidate v (int i) of
                    (e, pd') \<Rightarrow> (pd', succs @ [(stateID e, 1000)])))))"

text \<open>
  The part of the loop body of \<^verbatim>\<open>GetSuccs\<close> that a surviving candidate reaches (lines
  203-204 and 267-301), with the test of line 267 as the code has it.
\<close>

definition expand_candidate ::
  "environment \<Rightarrow> EnvChain3DHashEntry \<Rightarrow> EnvChain3DPlanningData \<times> (int \<times> int) list \<Rightarrow>
     nat \<times> real list \<times> (int \<times> int \<times> int) \<Rightarrow> EnvChain3DPlanningData \<times> (int \<times> int) list" where
  "expand_candidate env goal st cand =
     (case cand of (i, candidate, v) \<Rightarrow>
      (case st of (pd, succs) \<Rightarrow>
        if getJointDistanceIntegerMax env candidate (angles goal) = 1
        then (pd, succs @ [(stateID goal, 1000)])
        else (case getHashEntry pd (convertJointAnglesToCoord env candidate) (int i) of
                Some e \<Rightarrow> (pd, succs @ [(stateID e, 1000)])
              | None \<Rightarrow>
                 (case addHashEntry pd (convertJointAnglesToCoord env candidate) candidate v (int i) of
                    (e, pd') \<Rightarrow> (pd', succs @ [(stateID e, 1000)])))))"

section \<open>Invariant of the state table\<close>

text \<open>
  State IDs are positions; the keyed mapping holds exactly the coordinates of the table
  and yields entries of the table under their own coordinate; a coordinate is that of
  the entry's angles; the start entry is entry 0 and the goal entry is entry 1; and two
  entries with the same coordinate can only be these two.
\<close>

definition table_invariant :: "environment \<Rightarrow> EnvChain3DPlanningData \<Rightarrow> bool" where
  "table_invariant env pd =
     ((\<forall>i < length (state_ID_to_coord_table pd). stateID (state_ID_to_coord_table pd ! i) = int i) \<and>
      (\<forall>c e. coord_to_state_ID_table pd c = Some e \<longrightarrow>
              e \<in> set (state_ID_to_coord_table pd) \<and> coord e = c) \<and>
      (\<forall>e \<in> set (state_ID_to_coord_table pd). coord_to_state_ID_table pd (coord e) \<noteq> None) \<and>
      (\<forall>e \<in> set (state_ID_to_coord_table pd). coord e = convertJointAnglesToCoord env (angles e)) \<and>
      (\<forall>i j. i < j \<and> j < length (state_ID_to_coord_table pd) \<and>
             coord (state_ID_to_coord_table pd ! i) = coord (state_ID_to_coord_table pd ! j)
             \<longrightarrow> i = 0 \<and> j = 1) \<and>
      2 \<le> length (state_ID_to_coord_table pd) \<and>
      start_hash_entry pd = Some (state_ID_to_coord_table pd ! 0) \<and>
      goal_hash_entry pd = Some (state_ID_to_coord_table pd ! 1))"

text \<open>
  How a surviving candidate \<open>(i, candidate, v)\<close> relates to the pair \<open>(id, cost)\<close>
  returned for it by an expansion that leaves the planning data \<open>pd'\<close>: the cost is
  1000; with \<open>maxInt\<close> exactly 1 the ID is the goal's; otherwise the ID is that of the
  entry kept under the candidate's coordinate.
\<close>

definition placed ::
  "environment \<Rightarrow> EnvChain3DHashEntry \<Rightarrow> EnvChain3DPlanningData \<Rightarrow>
     nat \<times> real list \<times> (int \<times> int \<times> int) \<Rightarrow> int \<times> int \<Rightarrow> bool" where
  "placed env goal pd' cand succ =
     (snd succ = 1000 \<and>
      (maxInt_is_one env (fst (snd cand)) (angles goal) \<longrightarrow> fst succ = stateID goal) \<and>
      (\<not> maxInt_is_one env (fst (snd cand)) (angles goal) \<longrightarrow>
         (\<exists>e. coord_to_state_ID_table pd' (convertJointAnglesToCoord env (fst (snd cand))) = Some e \<and>
              stateID e = fst succ)))"

text \<open>The same with the test of line 267 as the code has it.\<close>

definition expanded ::
  "environment \<Rightarrow> EnvChain3DHashEntry \<Rightarrow> EnvChain3DPlanningData \<Rightarrow>
     nat \<times> real list \<times> (int \<times> int \<times> int) \<Rightarrow> int \<times> int \<Rightarrow> bool" where
  "expanded env goal pd' cand succ =
     (snd succ = 1000 \<and>
      (getJointDistanceIntegerMax env (fst (snd cand)) (angles goal) = 1 \<longrightarrow> fst succ = stateID goal) \<and>
      (getJointDistanceIntegerMax env (fst (snd cand)) (angles goal) \<noteq> 1 \<longrightarrow>
         (\<exists>e. coord_to_state_ID_table pd' (convertJointAnglesToCoord env (fst (snd cand))) = Some e \<and>
              stateID e = fst succ)))"

text \<open>The planning data left by \<^verbatim>\<open>setupForMotionPlan\<close> on a fresh environment.\<close>

definition setup_data :: "environment \<Rightarrow> scene \<Rightarrow> EnvChain3DPlanningData" where
  "setup_data env sc = snd (setupForMotionPlan env sc empty_planning_data)"

definition setup_result :: "environment \<Rightarrow> scene \<Rightarrow> MoveItErrorCode option" where
  "setup_result env sc = fst (setupForMotionPlan env sc empty_planning_data)"

text \<open>An arm with one joint for which every candidate collides.\<close>

definition blocked_joint :: environment where
  "blocked_joint = bounded_arm [(-1, 1)] LONG_RANGE_JOINT_DIFF (\<lambda>a. True)"

text \<open>An arm with one joint whose buckets are five joint steps wide, as with a distance field of resolution 0.5.\<close>

definition coarse_joint :: environment where
  "coarse_joint = bounded_arm [(-1, 1)] (1 / 2) (\<lambda>a. False)"

text \<open>An arm with one joint and buckets of the width of the joint step.\<close>

definition one_joint :: environment where
  "one_joint = bounded_arm [(-1, 1)] LONG_RANGE_JOINT_DIFF (\<lambda>a. False)"

text \<open>The planning data after one expansion, and unchanged if there is none.\<close>

definition after_expansion ::
  "environment \<Rightarrow> EnvChain3DPlanningData \<Rightarrow> int \<Rightarrow> EnvChain3DPlanningData" where
  "after_expansion env pd sid = (case GetSuccs env pd sid of None \<Rightarrow> pd | Some (pd', succs) \<Rightarrow> pd')"

text \<open>
  The planning data after the setup of the two-joint arm with start \<open>(0.2, 0.1)\<close> and
  goal \<open>(0, 0)\<close>, and after the expansion of the start state.
\<close>

definition bent_scene :: scene where
  "bent_scene = free_scene [2 * LONG_RANGE_JOINT_DIFF, LONG_RANGE_JOINT_DIFF] [0, 0]"

definition bent_data :: EnvChain3DPlanningData where
  "bent_data = setup_data two_joints bent_scene"





text \<open>The planning data after the setup of the coarse one-joint arm with start \<open>0.5\<close> and goal \<open>1\<close>.\<close>

definition coarse_data :: EnvChain3DPlanningData where
  "coarse_data = setup_data coarse_joint (free_scene [1 / 2] [1])"

section \<open>The worker started after a stop request\<close>

text \<open>
  Claim C10. If the completion flag is already set when \<^verbatim>\<open>executeThread\<close> starts, the
  worker returns with status ABORTED, whatever the status was (PREEMPTED included), makes
  no call at all (so the completion callback is not invoked) and leaves the queue of
  trajectories as it is, for every value of \<open>auto_clear\<close> and with or without a callback.
\<close>

theorem executeThread_already_complete:
  assumes "execution_complete s"
  shows "\<exists>s'. executeThread w callback auto_clear s = Some (Returns s') \<and>
              last_execution_status s' = ABORTED \<and>
              calls s' = calls s \<and>
              trajectories s' = trajectories s \<and>
              s' = s\<lparr>last_execution_status := ABORTED\<rparr>"
  using assms by (simp add: executeThread_def)

theorem executeThread_already_complete_witness:
  "execution_complete ((idle_state [ctx3])\<lparr>execution_complete := True, last_execution_status := PREEMPTED\<rparr>) \<and>
   (\<exists>s'. executeThread calm_world True True
            ((idle_state [ctx3])\<lparr>execution_complete := True, last_execution_status := PREEMPTED\<rparr>) =
            Some (Returns s') \<and>
         last_execution_status s' = ABORTED \<and> calls s' = [] \<and> trajectories s' = [ctx3])"
  using executeThread_already_complete
          [of "(idle_state [ctx3])\<lparr>execution_complete := True, last_execution_status := PREEMPTED\<rparr>"
              calm_world True True]
  by (simp add: idle_state_def)


section \<open>A part that cannot be sent\<close>

lemma send_parts_fail:
  assumes "k \<le> i" "i < n"
    and "\<forall>j. k \<le> j \<and> j < i \<longrightarrow> send_trajectory w c j = SendOk"
    and "send_trajectory w c i \<noteq> SendOk"
  shows "send_parts w c [k..<n] s =
    (False, s\<lparr>calls := calls s @ map (\<lambda>j. SendTrajectory (active_handles s ! j) j) [k..<Suc i]
                            @ map (\<lambda>j. CancelExecution (active_handles s ! j)) [0..<i],
              active_handles := [], current_context := -1, last_execution_status := ABORTED\<rparr>)"
  using assms
proof (induction "i - k" arbitrary: k s)
  case 0
  then have ki: "k = i" by simp
  have "[k..<n] = i # [Suc i..<n]" using ki \<open>i < n\<close> by (simp add: upt_conv_Cons)
  then show ?case using 0 ki by (simp add: Let_def)
next
  case (Suc d)
  then have lt: "k < i" and kn: "k < n" by auto
  have ok: "send_trajectory w c k = SendOk" using Suc.prems lt by auto
  have up: "[k..<n] = k # [Suc k..<n]" using kn by (simp add: upt_conv_Cons)
  have up2: "[k..<Suc i] = k # [Suc k..<Suc i]" using lt by (simp add: upt_conv_Cons)
  let ?s1 = "s\<lparr>calls := calls s @ [SendTrajectory (active_handles s ! k) k]\<rparr>"
  have IH: "send_parts w c [Suc k..<n] ?s1 =
    (False, ?s1\<lparr>calls := calls ?s1 @ map (\<lambda>j. SendTrajectory (active_handles ?s1 ! j) j) [Suc k..<Suc i]
                            @ map (\<lambda>j. CancelExecution (active_handles ?s1 ! j)) [0..<i],
              active_handles := [], current_context := -1, last_execution_status := ABORTED\<rparr>)"
    using Suc.hyps(1)[of "Suc k" ?s1] Suc.hyps(2) Suc.prems lt by auto
  show ?case
    unfolding up by (simp add: ok Let_def IH up2 del: upt_Suc)
qed


text \<open>
  Claim C8. If every part before part \<open>i\<close> of a context was accepted by its handle and
  sending part \<open>i\<close> fails (the handle returns false or throws), then \<^verbatim>\<open>executePart\<close>
  returns false; the calls made are the sends of parts \<open>0..i\<close> followed by the
  cancellation of exactly the handles \<open>0..i-1\<close>, so no later part is sent; the list of
  active handles is empty and the status is ABORTED.
\<close>

theorem executePart_send_failure:
  assumes idx: "part_index < length (trajectories s)"
    and ctx: "context = trajectories s ! part_index"
    and running: "\<not> execution_complete s"
    and active: "ensure_active w part_index"
    and nostop: "\<not> stop_after_ensure w part_index" "\<not> stop_before_lock w part_index"
    and len: "length (trajectory_parts context) \<le> length (controllers context)"
    and i: "i < length (trajectory_parts context)"
    and before: "\<forall>j < i. send_trajectory w part_index j = SendOk"
    and fails: "send_trajectory w part_index i \<noteq> SendOk"
  shows "\<exists>s'. executePart w part_index s = Some (Returns (False, s')) \<and>
           calls s' = calls s @ map (\<lambda>j. SendTrajectory (controllers context ! j) j) [0..<Suc i]
                              @ map (\<lambda>j. CancelExecution (controllers context ! j)) [0..<i] \<and>
           active_handles s' = [] \<and>
           last_execution_status s' = ABORTED"
proof -
  let ?s1 = "s\<lparr>current_context := int part_index, active_handles := controllers context\<rparr>"
  have sp: "send_parts w part_index [0..<length (trajectory_parts context)] ?s1 =
    (False, ?s1\<lparr>calls := calls ?s1 @ map (\<lambda>j. SendTrajectory (active_handles ?s1 ! j) j) [0..<Suc i]
                            @ map (\<lambda>j. CancelExecution (active_handles ?s1 ! j)) [0..<i],
              active_handles := [], current_context := -1, last_execution_status := ABORTED\<rparr>)"
    by (rule send_parts_fail) (use i before fails in auto)
  show ?thesis
    using idx running active nostop len
    by (simp add: executePart_def external_stop_def ctx[symmetric] sp Let_def del: upt_Suc)
qed

theorem executePart_send_failure_witness:
  "\<exists>s'. executePart (fail_at 1) 0 (idle_state [ctx3]) = Some (Returns (False, s')) \<and>
        calls s' = [SendTrajectory ''arm'' 0, SendTrajectory ''head'' 1, CancelExecution ''arm''] \<and>
        active_handles s' = [] \<and> last_execution_status s' = ABORTED"
  using executePart_send_failure [of 0 "idle_state [ctx3]" ctx3 "fail_at 1" 1]
  by (simp add: fail_at_def calm_world_def idle_state_def ctx3_def upt_conv_Cons)


section \<open>The timeout budget\<close>










section \<open>The registry after a reload\<close>

lemma load_controllers_known:
  "known (load_controllers gj names r) a =
     (if a \<in> set names then new_information a (gj a) else known r a)"
  by (induction names arbitrary: r) (auto simp: known_def)

lemma load_controllers_dom: "dom (load_controllers gj names r) = set names \<union> dom r"
  by (induction names arbitrary: r) auto

lemma insert_overlapping_known:
  "known (insert_overlapping r a b) c =
     (if c = a \<and> a \<in> dom r
      then (known r a)\<lparr>overlapping_controllers := insert b (overlapping_controllers (known r a))\<rparr>
      else known r c)"
  by (auto simp: insert_overlapping_def known_def split: option.splits)

lemma insert_overlapping_dom: "dom (insert_overlapping r a b) = dom r"
  by (auto simp: insert_overlapping_def split: option.splits)

lemma overlap_pair_step:
  assumes "loaded_from K J r" "a \<in> K" "b \<in> K"
  shows "loaded_from K J (overlap_pair r (a, b)) \<and>
         (\<forall>c d. d \<in> overlapping_controllers (known r c) \<longrightarrow>
                 d \<in> overlapping_controllers (known (overlap_pair r (a, b)) c)) \<and>
         (a \<noteq> b \<and> J a \<inter> J b \<noteq> {} \<longrightarrow>
            b \<in> overlapping_controllers (known (overlap_pair r (a, b)) a))"
  using assms
  by (auto simp: loaded_from_def overlap_pair_def insert_overlapping_known insert_overlapping_dom
           split: if_splits)

lemma overlap_fold:
  assumes "loaded_from K J r" "\<forall>p \<in> set ps. fst p \<in> K \<and> snd p \<in> K"
  shows "loaded_from K J (foldl overlap_pair r ps) \<and>
         (\<forall>c d. d \<in> overlapping_controllers (known r c) \<longrightarrow>
                 d \<in> overlapping_controllers (known (foldl overlap_pair r ps) c)) \<and>
         (\<forall>p \<in> set ps. fst p \<noteq> snd p \<and> J (fst p) \<inter> J (snd p) \<noteq> {} \<longrightarrow>
            snd p \<in> overlapping_controllers (known (foldl overlap_pair r ps) (fst p)))"
  using assms
proof (induction ps arbitrary: r)
  case Nil
  then show ?case by simp
next
  case (Cons p ps)
  obtain a b where p: "p = (a, b)" by (cases p) auto
  have ab: "a \<in> K" "b \<in> K" using Cons.prems(2) p by auto
  from overlap_pair_step [OF Cons.prems(1) ab] have
    s: "loaded_from K J (overlap_pair r (a, b))"
       "\<forall>c d. d \<in> overlapping_controllers (known r c) \<longrightarrow>
                 d \<in> overlapping_controllers (known (overlap_pair r (a, b)) c)"
       "a \<noteq> b \<and> J a \<inter> J b \<noteq> {} \<longrightarrow>
            b \<in> overlapping_controllers (known (overlap_pair r (a, b)) a)"
    by blast+
  have rest: "\<forall>p \<in> set ps. fst p \<in> K \<and> snd p \<in> K" using Cons.prems(2) by simp
  from Cons.IH [OF s(1) rest] have
    t: "loaded_from K J (foldl overlap_pair (overlap_pair r (a, b)) ps)"
       "\<forall>c d. d \<in> overlapping_controllers (known (overlap_pair r (a, b)) c) \<longrightarrow>
                 d \<in> overlapping_controllers (known (foldl overlap_pair (overlap_pair r (a, b)) ps) c)"
       "\<forall>p \<in> set ps. fst p \<noteq> snd p \<and> J (fst p) \<inter> J (snd p) \<noteq> {} \<longrightarrow>
            snd p \<in> overlapping_controllers
                      (known (foldl overlap_pair (overlap_pair r (a, b)) ps) (fst p))"
    by blast+
  show ?case using s t p by auto
qed

lemma reload_consistent:
  "overlap_consistent (reloadControllerInformation names gj) cs"
proof -
  let ?K = "set names" and ?J = "\<lambda>a. set (gj a)"
  let ?loaded = "load_controllers gj names Map.empty"
  let ?keys = "sorted_list_of_set (set names)"
  let ?final = "foldl overlap_pair ?loaded (List.product ?keys ?keys)"
  have e: "\<And>a. known Map.empty a = default_information" by (simp add: known_def)
  have l0: "loaded_from ?K ?J ?loaded"
    by (auto simp: loaded_from_def load_controllers_known load_controllers_dom
          new_information_def default_information_def e)
  have keys: "set ?keys = ?K" by simp
  have pairs: "\<forall>p \<in> set (List.product ?keys ?keys). fst p \<in> ?K \<and> snd p \<in> ?K"
    using keys by auto
  from overlap_fold [OF l0 pairs] have
    f: "loaded_from ?K ?J ?final"
       "\<forall>p \<in> set (List.product ?keys ?keys). fst p \<noteq> snd p \<and> ?J (fst p) \<inter> ?J (snd p) \<noteq> {} \<longrightarrow>
            snd p \<in> overlapping_controllers (known ?final (fst p))"
    by blast+
  have "b \<in> overlapping_controllers (known ?final a) \<longleftrightarrow> joints (known ?final a) \<inter> joints (known ?final b) \<noteq> {}"
    if "a \<noteq> b" for a b
  proof
    assume "b \<in> overlapping_controllers (known ?final a)"
    then have "a \<in> ?K \<and> b \<in> ?K \<and> ?J a \<inter> ?J b \<noteq> {}" using f(1) unfolding loaded_from_def by blast
    then show "joints (known ?final a) \<inter> joints (known ?final b) \<noteq> {}"
      using f(1) unfolding loaded_from_def by simp
  next
    assume ne: "joints (known ?final a) \<inter> joints (known ?final b) \<noteq> {}"
    have ja: "joints (known ?final a) = (if a \<in> ?K then ?J a else {})"
      and jb: "joints (known ?final b) = (if b \<in> ?K then ?J b else {})"
      using f(1) unfolding loaded_from_def by blast+
    have "a \<in> ?K" "b \<in> ?K" using ne ja jb by (auto split: if_splits)
    then have "(a, b) \<in> set (List.product ?keys ?keys)" using keys by simp
    moreover have "?J a \<inter> ?J b \<noteq> {}" using ne ja jb \<open>a \<in> ?K\<close> \<open>b \<in> ?K\<close> by simp
    ultimately show "b \<in> overlapping_controllers (known ?final a)" using f(2) that by fastforce
  qed
  then show ?thesis
    by (simp add: overlap_consistent_def reloadControllerInformation_def Let_def)
qed

lemma update_state_known:
  "joints (known (updateControllerState r c st now) a) = joints (known r a) \<and>
   overlapping_controllers (known (updateControllerState r c st now) a) =
   overlapping_controllers (known r a)"
  by (auto simp: updateControllerState_def known_def split: option.splits)

lemma update_state_consistent:
  "overlap_consistent r cs \<Longrightarrow> overlap_consistent (updateControllerState r c st now) cs"
  by (simp add: overlap_consistent_def update_state_known)


section \<open>Properties of controller selection\<close>

lemma generate_sound:
  "S \<in> set (generateControllerCombination r k rest sel J) \<Longrightarrow>
     length S = k \<and> checkControllerCombination r S J \<and>
     (\<exists>T. S = sel @ T \<and> subseq T rest \<and> compatible r sel T)"
proof (induction rest arbitrary: sel)
  case Nil
  then show ?case by (auto split: if_splits)
next
  case (Cons c rest)
  show ?case
  proof (cases "length sel = k")
    case True
    with Cons.prems show ?thesis by (auto split: if_splits)
  next
    case False
    with Cons.prems consider
        (take) "\<not> overlaps_selected r c sel"
               "S \<in> set (generateControllerCombination r k rest (sel @ [c]) J)"
      | (skip) "S \<in> set (generateControllerCombination r k rest sel J)"
      by (auto split: if_splits)
    then show ?thesis
    proof cases
      case take
      from Cons.IH [OF take(2)] obtain T where
        T: "length S = k" "checkControllerCombination r S J" "S = (sel @ [c]) @ T"
           "subseq T rest" "compatible r (sel @ [c]) T" by blast
      have "S = sel @ (c # T)" "subseq (c # T) (c # rest)" "compatible r sel (c # T)"
        using T take(1) by auto
      with T(1,2) show ?thesis by blast
    next
      case skip
      from Cons.IH [OF skip] obtain T where
        T: "length S = k" "checkControllerCombination r S J" "S = sel @ T"
           "subseq T rest" "compatible r sel T" by blast
      have "subseq T (c # rest)" using T(4) by (rule list_emb_Cons)
      with T show ?thesis by blast
    qed
  qed
qed

lemma generate_complete:
  "subseq T rest \<Longrightarrow> length sel + length T = k \<Longrightarrow> checkControllerCombination r (sel @ T) J \<Longrightarrow>
   compatible r sel T \<Longrightarrow> sel @ T \<in> set (generateControllerCombination r k rest sel J)"
proof (induction rest arbitrary: sel T)
  case Nil
  then show ?case by (auto dest: list_emb_Nil2)
next
  case (Cons c rest)
  show ?case
  proof (cases T)
    case Nil
    with Cons.prems show ?thesis by simp
  next
    case (Cons t ts)
    then have ne: "length sel \<noteq> k" using Cons.prems(2) by auto
    show ?thesis
    proof (cases "t = c")
      case True
      have "subseq ts rest" using Cons.prems(1) Cons True by simp
      moreover have "length (sel @ [c]) + length ts = k" using Cons.prems(2) Cons by simp
      moreover have "checkControllerCombination r ((sel @ [c]) @ ts) J"
        using Cons.prems(3) Cons True by simp
      moreover have "compatible r (sel @ [c]) ts" "\<not> overlaps_selected r c sel"
        using Cons.prems(4) Cons True by auto
      ultimately have "(sel @ [c]) @ ts \<in> set (generateControllerCombination r k rest (sel @ [c]) J)"
        using Cons.IH by blast
      then show ?thesis using ne Cons True \<open>\<not> overlaps_selected r c sel\<close> by simp
    next
      case False
      have "subseq T rest" using Cons.prems(1) Cons False by simp
      then have "sel @ T \<in> set (generateControllerCombination r k rest sel J)"
        using Cons.IH Cons.prems by blast
      then show ?thesis using ne by simp
    qed
  qed
qed

lemma compatible_pairs:
  "compatible r sel T \<Longrightarrow> a \<in> set T \<Longrightarrow> b \<in> set (sel @ T) \<Longrightarrow> a \<noteq> b \<Longrightarrow>
     b \<notin> overlapping_controllers (known r a) \<or> a \<notin> overlapping_controllers (known r b)"
proof (induction T arbitrary: sel a b)
  case Nil
  then show ?case by simp
next
  case (Cons t ts)
  have c1: "\<not> overlaps_selected r t sel" and c2: "compatible r (sel @ [t]) ts"
    using Cons.prems(1) by auto
  show ?case
  proof (cases "a = t")
    case True
    show ?thesis
    proof (cases "b \<in> set sel")
      case True
      with c1 \<open>a = t\<close> show ?thesis by (auto simp: overlaps_selected_def)
    next
      case False
      then have "b \<in> set ts" using Cons.prems(3,4) \<open>a = t\<close> by auto
      from Cons.IH [OF c2 this, of t] Cons.prems(4) \<open>a = t\<close> show ?thesis by auto
    qed
  next
    case False
    then have "a \<in> set ts" using Cons.prems(2) by simp
    from Cons.IH [OF c2 this, of b] Cons.prems(3,4) show ?thesis by auto
  qed
qed

lemma compatible_intro:
  "distinct (sel @ T) \<Longrightarrow>
   (\<forall>a \<in> set (sel @ T). \<forall>b \<in> set (sel @ T). a \<noteq> b \<longrightarrow> b \<notin> overlapping_controllers (known r a)) \<Longrightarrow>
   compatible r sel T"
proof (induction T arbitrary: sel)
  case Nil
  then show ?case by simp
next
  case (Cons t ts)
  have "\<not> overlaps_selected r t sel"
    using Cons.prems by (auto simp: overlaps_selected_def)
  moreover have "compatible r (sel @ [t]) ts"
    using Cons.IH [of "sel @ [t]"] Cons.prems by auto
  ultimately show ?case by simp
qed

lemma set_insert_sorted: "set (insert_sorted lt x ys) = insert x (set ys)"
  by (induction ys) auto

lemma set_std_sort: "set (std_sort lt xs) = set xs"
  by (induction xs) (auto simp: std_sort_def set_insert_sorted)

lemma findControllers_mem:
  assumes "findControllers r m J k A = Some S"
  shows "S \<in> set (generateControllerCombination r k A [] J)"
proof -
  let ?opts = "generateControllerCombination r k A [] J"
  let ?bij = "std_sort (\<lambda>a b. OrderPotentialControllerCombination r (?opts ! a) (?opts ! b))
                [0..<length ?opts]"
  have ne: "?opts \<noteq> []" using assms by (auto simp: findControllers_def Let_def)
  have bset: "set ?bij = {0..<length ?opts}" by (simp add: set_std_sort)
  have "?bij \<noteq> []" using bset ne by (metis atLeastLessThan_empty_iff2 length_greater_0_conv set_empty)
  then have b0: "?bij ! 0 \<in> set ?bij" by (simp add: hd_conv_nth [symmetric])
  then have first: "?opts ! (?bij ! 0) \<in> set ?opts" using bset by auto
  have found: "\<And>i. find (\<lambda>i. areControllersActive r (?opts ! i)) ?bij = Some i \<Longrightarrow>
                 ?opts ! i \<in> set ?opts"
  proof -
    fix i assume "find (\<lambda>i. areControllersActive r (?opts ! i)) ?bij = Some i"
    then have "i \<in> set ?bij" by (auto simp: find_Some_iff)
    then show "?opts ! i \<in> set ?opts" using bset by auto
  qed
  have one: "?opts ! 0 \<in> set ?opts" using ne by simp
  show ?thesis
    using assms first found one
    by (auto simp: findControllers_def Let_def split: if_splits option.splits)
qed

lemma findControllers_None:
  "findControllers r m J k A = None \<longleftrightarrow> generateControllerCombination r k A [] J = []"
  by (auto simp: findControllers_def Let_def split: option.splits)

lemma other_option_Some:
  "other_option r m J A js = Some S \<Longrightarrow>
     areControllersActive r S \<and> (\<exists>j \<in> set js. S \<in> set (generateControllerCombination r j A [] J))"
  by (induction js) (auto split: option.splits if_splits dest: findControllers_mem)

lemma select_sizes_mem:
  "select_sizes r m J A sizes = Some S \<Longrightarrow>
     \<exists>i \<in> set sizes. S \<in> set (generateControllerCombination r i A [] J)"
  by (induction sizes)
     (auto split: option.splits if_splits dest: findControllers_mem other_option_Some)

lemma select_sizes_first:
  "select_sizes r m J A sizes = Some S \<Longrightarrow> m \<or> \<not> areControllersActive r S \<Longrightarrow>
     \<exists>pre post. sizes = pre @ length S # post \<and>
        (\<forall>k \<in> set pre. generateControllerCombination r k A [] J = [])"
proof (induction sizes)
  case Nil
  then show ?case by simp
next
  case (Cons i rest)
  show ?case
  proof (cases "findControllers r m J i A")
    case None
    then have e: "generateControllerCombination r i A [] J = []" by (simp add: findControllers_None)
    from None Cons.prems have "select_sizes r m J A rest = Some S" by simp
    from Cons.IH [OF this Cons.prems(2)] obtain pre post where
      "rest = pre @ length S # post" "\<forall>k \<in> set pre. generateControllerCombination r k A [] J = []"
      by blast
    then have "i # rest = (i # pre) @ length S # post"
      "\<forall>k \<in> set (i # pre). generateControllerCombination r k A [] J = []" using e by auto
    then show ?thesis by blast
  next
    case (Some sel)
    have "S = sel"
      using Cons.prems Some by (auto split: if_splits option.splits dest: other_option_Some)
    moreover have "length sel = i" using findControllers_mem [OF Some] generate_sound by blast
    ultimately have "i # rest = [] @ length S # rest" by simp
    then show ?thesis by (metis empty_iff list.set(1))
  qed
qed

lemma subseq_remdups_self: "subseq (remdups xs) xs"
  by (induction xs) auto

lemma findControllers_active:
  assumes f: "findControllers r False J k A = Some S"
    and opt: "opt \<in> set (generateControllerCombination r k A [] J)"
    and act: "areControllersActive r opt"
  shows "areControllersActive r S"
proof -
  let ?opts = "generateControllerCombination r k A [] J"
  let ?bij = "std_sort (\<lambda>a b. OrderPotentialControllerCombination r (?opts ! a) (?opts ! b))
                [0..<length ?opts]"
  let ?P = "\<lambda>i. areControllersActive r (?opts ! i)"
  have ne: "?opts \<noteq> []" using opt by auto
  show ?thesis
  proof (cases "length ?opts = 1")
    case True
    then have "?opts = [?opts ! 0]" by (cases ?opts) auto
    then have "opt = ?opts ! 0" using opt by (metis empty_iff empty_set set_ConsD)
    moreover have "S = ?opts ! 0" using f ne True by (simp add: findControllers_def Let_def)
    ultimately show ?thesis using act by simp
  next
    case False
    from opt obtain i where i: "i < length ?opts" "?opts ! i = opt" by (auto simp: in_set_conv_nth)
    then have "i \<in> set ?bij" by (simp add: set_std_sort)
    then have "find ?P ?bij \<noteq> None" using i(2) act by (auto simp: find_None_iff)
    then obtain j where j: "find ?P ?bij = Some j" by auto
    then have "?P j" by (auto simp: find_Some_iff)
    moreover have "S = ?opts ! j" using f ne False j by (simp add: findControllers_def Let_def)
    ultimately show ?thesis by simp
  qed
qed

lemma other_option_None:
  "other_option r False J A js = None \<Longrightarrow>
     \<forall>j \<in> set js. \<forall>opt \<in> set (generateControllerCombination r j A [] J). \<not> areControllersActive r opt"
proof (induction js)
  case Nil
  then show ?case by simp
next
  case (Cons j rest)
  show ?case
  proof (cases "findControllers r False J j A")
    case None
    then have "generateControllerCombination r j A [] J = []" by (simp add: findControllers_None)
    moreover have "other_option r False J A rest = None" using Cons.prems None by simp
    ultimately show ?thesis using Cons.IH by simp
  next
    case (Some opt)
    then have na: "\<not> areControllersActive r opt" and rest: "other_option r False J A rest = None"
      using Cons.prems by (auto split: if_splits)
    have "\<forall>opt' \<in> set (generateControllerCombination r j A [] J). \<not> areControllersActive r opt'"
      using findControllers_active [OF Some] na by blast
    then show ?thesis using Cons.IH [OF rest] by simp
  qed
qed

lemma other_option_first:
  "other_option r False J A js = Some S \<Longrightarrow>
     \<exists>pre post. js = pre @ length S # post \<and>
       (\<forall>k \<in> set pre. \<forall>opt \<in> set (generateControllerCombination r k A [] J).
          \<not> areControllersActive r opt)"
proof (induction js)
  case Nil
  then show ?case by simp
next
  case (Cons j rest)
  have later: ?case
    if none: "\<forall>opt \<in> set (generateControllerCombination r j A [] J). \<not> areControllersActive r opt"
      and rest: "other_option r False J A rest = Some S"
  proof -
    from Cons.IH [OF rest] obtain pre post where
      pp: "rest = pre @ length S # post"
          "\<forall>k \<in> set pre. \<forall>opt \<in> set (generateControllerCombination r k A [] J).
             \<not> areControllersActive r opt" by blast
    have "j # rest = (j # pre) @ length S # post" using pp(1) by simp
    moreover have "\<forall>k \<in> set (j # pre). \<forall>opt \<in> set (generateControllerCombination r k A [] J).
             \<not> areControllersActive r opt" using pp(2) none by simp
    ultimately show ?thesis by blast
  qed
  show ?case
  proof (cases "findControllers r False J j A")
    case None
    then have "generateControllerCombination r j A [] J = []" by (simp add: findControllers_None)
    moreover have "other_option r False J A rest = Some S" using Cons.prems None by simp
    ultimately show ?thesis using later by simp
  next
    case (Some opt)
    show ?thesis
    proof (cases "areControllersActive r opt")
      case True
      then have "S = opt" using Cons.prems Some by simp
      moreover have "length opt = j" using findControllers_mem [OF Some] generate_sound by blast
      ultimately have "j # rest = [] @ length S # rest" by simp
      then show ?thesis by (metis empty_iff list.set(1))
    next
      case False
      then have rest: "other_option r False J A rest = Some S" using Cons.prems Some by simp
      have "\<forall>opt' \<in> set (generateControllerCombination r j A [] J). \<not> areControllersActive r opt'"
        using findControllers_active [OF Some] False by blast
      then show ?thesis using later rest by simp
    qed
  qed
qed

lemma select_sizes_active:
  "select_sizes r False J A sizes = Some S \<Longrightarrow> areControllersActive r S \<Longrightarrow>
     \<exists>pre post. sizes = pre @ length S # post \<and>
       (\<forall>k \<in> set pre. \<forall>opt \<in> set (generateControllerCombination r k A [] J).
          \<not> areControllersActive r opt)"
proof (induction sizes)
  case Nil
  then show ?case by simp
next
  case (Cons i rest)
  show ?case
  proof (cases "findControllers r False J i A")
    case None
    then have e: "generateControllerCombination r i A [] J = []" by (simp add: findControllers_None)
    from None Cons.prems have "select_sizes r False J A rest = Some S" by simp
    from Cons.IH [OF this Cons.prems(2)] obtain pre post where
      pp: "rest = pre @ length S # post"
          "\<forall>k \<in> set pre. \<forall>opt \<in> set (generateControllerCombination r k A [] J).
             \<not> areControllersActive r opt" by blast
    have "i # rest = (i # pre) @ length S # post" using pp(1) by simp
    moreover have "\<forall>k \<in> set (i # pre). \<forall>opt \<in> set (generateControllerCombination r k A [] J).
             \<not> areControllersActive r opt" using pp(2) e by simp
    ultimately show ?thesis by blast
  next
    case (Some sel)
    have len: "length sel = i" using findControllers_mem [OF Some] generate_sound by blast
    show ?thesis
    proof (cases "areControllersActive r sel")
      case True
      then have "S = sel" using Cons.prems Some by simp
      then have "i # rest = [] @ length S # rest" using len by simp
      then show ?thesis by (metis empty_iff list.set(1))
    next
      case False
      have none: "\<forall>opt \<in> set (generateControllerCombination r i A [] J). \<not> areControllersActive r opt"
        using findControllers_active [OF Some] False by blast
      have "other_option r False J A rest = Some S"
        using Cons.prems Some False by (auto split: option.splits)
      from other_option_first [OF this] obtain pre post where
        pp: "rest = pre @ length S # post"
            "\<forall>k \<in> set pre. \<forall>opt \<in> set (generateControllerCombination r k A [] J).
               \<not> areControllersActive r opt" by blast
      have "i # rest = (i # pre) @ length S # post" using pp(1) by simp
      moreover have "\<forall>k \<in> set (i # pre). \<forall>opt \<in> set (generateControllerCombination r k A [] J).
               \<not> areControllersActive r opt" using pp(2) none by simp
      ultimately show ?thesis by blast
    qed
  qed
qed

lemma select_sizes_inactive:
  "select_sizes r False J A sizes = Some S \<Longrightarrow> \<not> areControllersActive r S \<Longrightarrow>
     \<forall>k \<in> set sizes. \<forall>opt \<in> set (generateControllerCombination r k A [] J).
        \<not> areControllersActive r opt"
proof (induction sizes)
  case Nil
  then show ?case by simp
next
  case (Cons i rest)
  show ?case
  proof (cases "findControllers r False J i A")
    case None
    then have e: "generateControllerCombination r i A [] J = []" by (simp add: findControllers_None)
    from None Cons.prems have "select_sizes r False J A rest = Some S" by simp
    from Cons.IH [OF this Cons.prems(2)] e show ?thesis by simp
  next
    case (Some sel)
    have other: "other_option r False J A rest = None"
      using Cons.prems Some by (auto split: option.splits if_splits dest: other_option_Some)
    then have "S = sel" using Cons.prems Some by (auto split: if_splits)
    then have "\<forall>opt \<in> set (generateControllerCombination r i A [] J). \<not> areControllersActive r opt"
      using findControllers_active [OF Some] Cons.prems(2) by blast
    then show ?thesis using other_option_None [OF other] by simp
  qed
qed

lemma selection_generated:
  assumes cons: "overlap_consistent r A"
    and S': "S' \<noteq> []" "distinct S'" "set S' \<subseteq> set A" "covers r S' J" "joint_disjoint r S'"
  shows "\<exists>T. T \<in> set (generateControllerCombination r (length S') A [] J) \<and> set T = set S' \<and>
             length S' \<in> set [1..<Suc (length A)]"
proof -
  let ?T = "filter (\<lambda>c. c \<in> set S') (remdups A)"
  have setT: "set ?T = set S'" using S'(3) by auto
  have dT: "distinct ?T" by simp
  have lenT: "length ?T = length S'"
    using setT dT S'(2) by (metis distinct_card)
  have subT: "subseq ?T A"
    using subseq_filter_left [of "\<lambda>c. c \<in> set S'" "remdups A"] subseq_remdups_self [of A]
    by (rule subseq_order.order_trans)
  have noov: "\<forall>a \<in> set ([] @ ?T). \<forall>b \<in> set ([] @ ?T). a \<noteq> b \<longrightarrow>
                b \<notin> overlapping_controllers (known r a)"
  proof (intro ballI impI)
    fix a b assume ab: "a \<in> set ([] @ ?T)" "b \<in> set ([] @ ?T)" "a \<noteq> b"
    then have "a \<in> set S'" "b \<in> set S'" by auto
    then have "joints (known r a) \<inter> joints (known r b) = {}" "a \<in> set A" "b \<in> set A"
      using S'(5) S'(3) ab(3) unfolding joint_disjoint_def by auto
    then show "b \<notin> overlapping_controllers (known r a)"
      using cons ab(3) unfolding overlap_consistent_def by blast
  qed
  have compT: "compatible r [] ?T" by (rule compatible_intro) (use dT noov in auto)
  have chkT: "checkControllerCombination r ([] @ ?T) J"
    using S'(4) setT by (simp add: covers_def checkControllerCombination_def)
  have "[] @ ?T \<in> set (generateControllerCombination r (length S') A [] J)"
    by (rule generate_complete [OF subT _ chkT compT]) (simp add: lenT)
  then have mem: "?T \<in> set (generateControllerCombination r (length S') A [] J)" by simp
  have range: "length S' \<in> set [1..<Suc (length A)]"
    using S'(1) lenT list_emb_length [OF subT] by (cases S') auto
  show ?thesis using mem setT range by blast
qed

lemma first_size_least:
  assumes "[1..<Suc n] = pre @ k # post" and "m \<in> set [1..<Suc n]" and "m \<notin> set pre"
  shows "k \<le> m"
proof -
  have "sorted [1..<Suc n]" by (rule sorted_upt)
  then have "\<forall>y \<in> set post. k \<le> y" unfolding assms(1) by (simp add: sorted_append)
  moreover have "m = k \<or> m \<in> set post" using assms(2,3) unfolding assms(1) by auto
  ultimately show ?thesis by auto
qed


text \<open>
  Claim C4, amended. If \<^verbatim>\<open>selectControllers\<close> succeeds with \<open>S\<close> on a registry whose
  overlap sets agree with the joint sets, then the joints of \<open>S\<close> cover the actuated
  joints, no two controllers of \<open>S\<close> share a joint, and \<open>S\<close> is taken from the available
  controllers. When controllers are managed, or when \<open>S\<close> is not fully active, no
  non-empty covering joint-disjoint selection from the available controllers is smaller
  than \<open>S\<close>. When controllers are not managed and some non-empty covering
  joint-disjoint selection from the available controllers is fully active, \<open>S\<close> is
  fully active and no fully active one is smaller than \<open>S\<close>: the minimum size is left
  only when no selection of that size is fully active.
\<close>

theorem selectControllers_cover_disjoint_minimal:
  assumes sel: "selectControllers r manage_controllers J A = Some S"
    and cons: "overlap_consistent r A"
  shows "covers r S J \<and> joint_disjoint r S \<and> set S \<subseteq> set A \<and>
         (manage_controllers \<or> \<not> areControllersActive r S \<longrightarrow>
            (\<forall>S'. S' \<noteq> [] \<and> distinct S' \<and> set S' \<subseteq> set A \<and> covers r S' J \<and> joint_disjoint r S'
                  \<longrightarrow> length S \<le> length S')) \<and>
         (\<not> manage_controllers \<longrightarrow>
            (\<forall>S'. S' \<noteq> [] \<and> distinct S' \<and> set S' \<subseteq> set A \<and> covers r S' J \<and> joint_disjoint r S' \<and>
                  areControllersActive r S'
                  \<longrightarrow> areControllersActive r S \<and> length S \<le> length S'))"
proof -
  let ?sizes = "[1..<Suc (length A)]"
  from sel obtain i where i: "S \<in> set (generateControllerCombination r i A [] J)"
    using select_sizes_mem unfolding selectControllers_def by blast
  from generate_sound [OF i] obtain T where
    S: "length S = i" "checkControllerCombination r S J" "S = [] @ T" "subseq T A" "compatible r [] T"
    by blast
  then have ST: "S = T" by simp
  have sub: "set S \<subseteq> set A" using S(4) ST by (auto dest: list_emb_set)
  have cov: "covers r S J" using S(2) by (simp add: covers_def checkControllerCombination_def)
  have dis: "joint_disjoint r S"
    unfolding joint_disjoint_def
  proof (intro ballI impI)
    fix a b assume ab: "a \<in> set S" "b \<in> set S" "a \<noteq> b"
    from compatible_pairs [OF S(5), of a b] ab ST
    have "b \<notin> overlapping_controllers (known r a) \<or> a \<notin> overlapping_controllers (known r b)" by simp
    moreover have "a \<in> set A" "b \<in> set A" using ab sub by auto
    ultimately show "joints (known r a) \<inter> joints (known r b) = {}"
      using cons ab(3) unfolding overlap_consistent_def by (metis inf_commute)
  qed
  have minimal: "length S \<le> length S'"
    if first: "manage_controllers \<or> \<not> areControllersActive r S"
      and S': "S' \<noteq> []" "distinct S'" "set S' \<subseteq> set A" "covers r S' J" "joint_disjoint r S'"
    for S'
  proof -
    from selection_generated [OF cons S'] obtain T where
      T: "T \<in> set (generateControllerCombination r (length S') A [] J)"
      and range: "length S' \<in> set ?sizes" by blast
    from select_sizes_first [OF sel [unfolded selectControllers_def] first]
    obtain pre post where pp: "?sizes = pre @ length S # post"
      "\<forall>k \<in> set pre. generateControllerCombination r k A [] J = []" by blast
    have "length S' \<notin> set pre" using pp(2) T by fastforce
    with pp(1) range show ?thesis by (rule first_size_least)
  qed
  have active: "areControllersActive r S \<and> length S \<le> length S'"
    if unmanaged: "\<not> manage_controllers"
      and S': "S' \<noteq> []" "distinct S'" "set S' \<subseteq> set A" "covers r S' J" "joint_disjoint r S'"
      and act: "areControllersActive r S'"
    for S'
  proof -
    from selection_generated [OF cons S'] obtain T where
      T: "T \<in> set (generateControllerCombination r (length S') A [] J)" "set T = set S'"
      and range: "length S' \<in> set ?sizes" by blast
    have actT: "areControllersActive r T" using act T(2) by (simp add: areControllersActive_def)
    have sel': "select_sizes r False J A ?sizes = Some S"
      using sel unmanaged by (simp add: selectControllers_def)
    have a: "areControllersActive r S"
    proof (rule ccontr)
      assume "\<not> areControllersActive r S"
      from select_sizes_inactive [OF sel' this] range T(1) actT show False by blast
    qed
    from select_sizes_active [OF sel' a] obtain pre post where
      pp: "?sizes = pre @ length S # post"
          "\<forall>k \<in> set pre. \<forall>opt \<in> set (generateControllerCombination r k A [] J).
             \<not> areControllersActive r opt" by blast
    have "length S' \<notin> set pre" using pp(2) T(1) actT by blast
    with pp(1) range have "length S \<le> length S'" by (rule first_size_least)
    with a show ?thesis by simp
  qed
  have c4: "manage_controllers \<or> \<not> areControllersActive r S \<longrightarrow>
            (\<forall>S'. S' \<noteq> [] \<and> distinct S' \<and> set S' \<subseteq> set A \<and> covers r S' J \<and> joint_disjoint r S'
                  \<longrightarrow> length S \<le> length S')"
    using minimal by blast
  have c5: "\<not> manage_controllers \<longrightarrow>
            (\<forall>S'. S' \<noteq> [] \<and> distinct S' \<and> set S' \<subseteq> set A \<and> covers r S' J \<and> joint_disjoint r S' \<and>
                  areControllersActive r S'
                  \<longrightarrow> areControllersActive r S \<and> length S \<le> length S')"
    using active by blast
  show ?thesis by (intro conjI cov dis sub c4 c5)
qed


lemma reg3_eq:
  "reg3 = [''A'' \<mapsto> info ''A'' {''j1''} {''C''} True,
           ''B'' \<mapsto> info ''B'' {''j2''} {''C''} True,
           ''C'' \<mapsto> info ''C'' {''j1'', ''j2''} {''A'', ''B''} False]"
  by (rule ext)
     (simp add: reg3_def updateControllerState_def reloadControllerInformation_def
        new_information_def overlap_pair_def known_def insert_overlapping_def
        default_information_def joints3_def running_def info_def insert_commute)


text \<open>
  Claim C4 as stated does not hold: when controllers are not managed and the selection of
  minimum size is not active, lines 423-435 prefer a larger selection that is. Here
  \<open>C\<close> alone covers both joints but is inactive, and the active \<open>A\<close> and \<open>B\<close>
  are returned.
\<close>

theorem selectControllers_counterexample:
  "selectControllers reg3 False {''j1'', ''j2''} [''A'', ''B'', ''C''] = Some [''A'', ''B''] \<and>
   covers reg3 [''C''] {''j1'', ''j2''} \<and> joint_disjoint reg3 [''C''] \<and>
   length [''C''] < length [''A'', ''B'']"
  by (simp add: selectControllers_def findControllers_def reg3_eq info_def known_def
      checkControllerCombination_def overlaps_selected_def areControllersActive_def upt_conv_Cons
      covers_def joint_disjoint_def)


lemma all_active3_eq:
  "all_active3 = [''A'' \<mapsto> info ''A'' {''j1''} {''C''} True,
           ''B'' \<mapsto> info ''B'' {''j2''} {''C''} True,
           ''C'' \<mapsto> info ''C'' {''j1'', ''j2''} {''A'', ''B''} True]"
  by (rule ext) (simp add: all_active3_def reg3_eq updateControllerState_def info_def running_def)

text \<open>
  The theorem at work: managed, the inactive \<open>C\<close> alone is selected; not managed and
  with all three controllers active, \<open>C\<close> alone is selected as well.
\<close>

theorem selectControllers_cover_disjoint_minimal_witness:
  "selectControllers reg3 True {''j1'', ''j2''} [''A'', ''B'', ''C''] = Some [''C''] \<and>
   overlap_consistent reg3 [''A'', ''B'', ''C''] \<and>
   covers reg3 [''C''] {''j1'', ''j2''} \<and> joint_disjoint reg3 [''C''] \<and>
   length [''C''] \<le> length [''A'', ''B''] \<and>
   selectControllers all_active3 False {''j1'', ''j2''} [''A'', ''B'', ''C''] = Some [''C''] \<and>
   overlap_consistent all_active3 [''A'', ''B'', ''C''] \<and>
   areControllersActive all_active3 [''A'', ''B''] \<and>
   areControllersActive all_active3 [''C'']"
proof -
  have s: "selectControllers reg3 True {''j1'', ''j2''} [''A'', ''B'', ''C''] = Some [''C'']"
    by (simp add: selectControllers_def findControllers_def reg3_eq info_def known_def
      checkControllerCombination_def overlaps_selected_def areControllersActive_def upt_conv_Cons)
  have c: "overlap_consistent reg3 [''A'', ''B'', ''C'']"
    unfolding reg3_def by (intro update_state_consistent reload_consistent)
  have ab: "[''A'', ''B''] \<noteq> [] \<and> distinct [''A'', ''B''] \<and> set [''A'', ''B''] \<subseteq> set [''A'', ''B'', ''C''] \<and>
     covers reg3 [''A'', ''B''] {''j1'', ''j2''} \<and> joint_disjoint reg3 [''A'', ''B'']"
    by (simp add: covers_def joint_disjoint_def reg3_eq info_def known_def)
  have s': "selectControllers all_active3 False {''j1'', ''j2''} [''A'', ''B'', ''C''] = Some [''C'']"
    by (simp add: selectControllers_def findControllers_def all_active3_eq info_def known_def
      checkControllerCombination_def overlaps_selected_def areControllersActive_def upt_conv_Cons)
  have c': "overlap_consistent all_active3 [''A'', ''B'', ''C'']"
    unfolding all_active3_def by (intro update_state_consistent c)
  have ab': "[''A'', ''B''] \<noteq> [] \<and> distinct [''A'', ''B''] \<and> set [''A'', ''B''] \<subseteq> set [''A'', ''B'', ''C''] \<and>
     covers all_active3 [''A'', ''B''] {''j1'', ''j2''} \<and> joint_disjoint all_active3 [''A'', ''B''] \<and>
     areControllersActive all_active3 [''A'', ''B'']"
    by (simp add: covers_def joint_disjoint_def all_active3_eq info_def known_def areControllersActive_def)
  from selectControllers_cover_disjoint_minimal [OF s c] ab
  have m: "covers reg3 [''C''] {''j1'', ''j2''} \<and> joint_disjoint reg3 [''C''] \<and>
           length [''C''] \<le> length [''A'', ''B'']" by blast
  from selectControllers_cover_disjoint_minimal [OF s' c'] ab'
  have u: "areControllersActive all_active3 [''C'']" by blast
  from m u s c s' c' ab' show ?thesis by blast
qed

section \<open>Properties of the split\<close>

lemma index_from_notin: "n \<notin> set ns \<Longrightarrow> index_from ns j m n = m n"
  by (induction ns arbitrary: j m) auto

lemma index_from_mem:
  "n \<in> set ns \<Longrightarrow> \<exists>k. index_from ns j m n = Some k \<and> j \<le> k \<and> k < j + length ns"
proof (induction ns arbitrary: j m)
  case Nil
  then show ?case by simp
next
  case (Cons a ns)
  show ?case
  proof (cases "n \<in> set ns")
    case True
    from Cons.IH [OF True, of "Suc j" "m(a \<mapsto> j)"] obtain k where
      "index_from ns (Suc j) (m(a \<mapsto> j)) n = Some k" "Suc j \<le> k" "k < Suc j + length ns"
      by blast
    then show ?thesis by (intro exI [of _ k]) simp
  next
    case False
    then have "n = a" using Cons.prems by simp
    then show ?thesis using False by (simp add: index_from_notin)
  qed
qed

lemma bijection_of_in_range:
  "set jnames \<subseteq> set names \<Longrightarrow> list_all (\<lambda>k. k < length names) (bijection_of names jnames)"
  unfolding bijection_of_def list_all_iff
proof
  fix k assume sub: "set jnames \<subseteq> set names"
    and "k \<in> set (map (\<lambda>n. case index_from names 0 Map.empty n of None \<Rightarrow> 0 | Some k \<Rightarrow> k) jnames)"
  then obtain n where n: "n \<in> set jnames"
    "k = (case index_from names 0 Map.empty n of None \<Rightarrow> 0 | Some k \<Rightarrow> k)" by auto
  then have "n \<in> set names" using sub by auto
  from index_from_mem [OF this, of 0 Map.empty] n(2) show "k < length names" by auto
qed

lemma those_map_Some:
  "(\<forall>x \<in> set xs. \<exists>y. f x = Some y) \<Longrightarrow>
     \<exists>ys. those (map f xs) = Some ys \<and> length ys = length xs \<and>
          (\<forall>j < length xs. f (xs ! j) = Some (ys ! j))"
proof (induction xs)
  case Nil
  then show ?case by simp
next
  case (Cons x xs)
  then obtain y where y: "f x = Some y" by auto
  from Cons obtain ys where ys: "those (map f xs) = Some ys" "length ys = length xs"
    "\<forall>j < length xs. f (xs ! j) = Some (ys ! j)" by auto
  have "those (map f (x # xs)) = Some (y # ys)" using y ys(1) by simp
  moreover have "\<forall>j < length (x # xs). f ((x # xs) ! j) = Some ((y # ys) ! j)"
    using y ys(3) by (auto simp: nth_Cons split: nat.splits)
  ultimately show ?case using ys(2) by auto
qed

lemma set_set_intersection: "set (set_intersection A (set names)) = A \<inter> set names"
  by (simp add: set_intersection_def)

lemma set_intersection_Nil: "set_intersection A (set names) = [] \<longleftrightarrow> A \<inter> set names = {}"
  by (simp add: set_intersection_def)

lemma joint_point_Some:
  assumes "list_all (\<lambda>k. k < n) perm"
    and "positions p = [] \<or> length (positions p) = n"
    and "velocities p = [] \<or> length (velocities p) = n"
    and "accelerations p = [] \<or> length (accelerations p) = n"
  shows "\<exists>q. joint_point perm p = Some q \<and> time_from_start q = time_from_start p"
  using assms by (auto simp: joint_point_def project_unless_empty_def project_def)

lemma mdof_point_Some:
  assumes "list_all (\<lambda>k. k < n) perm" and "length (poses p) = n"
  shows "\<exists>q. mdof_point perm p = Some q \<and> mdof_time_from_start q = mdof_time_from_start p"
  using assms by (auto simp: mdof_point_def project_def)

lemma joint_part_nonempty:
  assumes wf: "well_formed_trajectory t"
    and ne: "A \<inter> set (joint_names (joint_trajectory t)) \<noteq> {}"
  shows "\<exists>jp. joint_part (joint_trajectory t)
                 (set_intersection A (set (joint_names (joint_trajectory t)))) = Some jp \<and>
              length (points jp) = length (points (joint_trajectory t)) \<and>
              (\<forall>j < length (points (joint_trajectory t)).
                 time_from_start (points jp ! j) = time_from_start (points (joint_trajectory t) ! j))"
proof -
  let ?jt = "joint_trajectory t"
  let ?I = "set_intersection A (set (joint_names ?jt))"
  let ?perm = "bijection_of (joint_names ?jt) ?I"
  have I: "?I \<noteq> []" using ne by (simp add: set_intersection_Nil)
  have rng: "list_all (\<lambda>k. k < length (joint_names ?jt)) ?perm"
    by (rule bijection_of_in_range) (simp add: set_set_intersection)
  have "\<forall>p \<in> set (points ?jt). \<exists>q. joint_point ?perm p = Some q"
    using wf joint_point_Some [OF rng] unfolding well_formed_trajectory_def by blast
  from those_map_Some [OF this] obtain pts where pts:
    "those (map (joint_point ?perm) (points ?jt)) = Some pts" "length pts = length (points ?jt)"
    "\<forall>j < length (points ?jt). joint_point ?perm (points ?jt ! j) = Some (pts ! j)" by blast
  have tfs: "\<forall>j < length (points ?jt). time_from_start (pts ! j) = time_from_start (points ?jt ! j)"
  proof (intro allI impI)
    fix j assume j: "j < length (points ?jt)"
    then have "points ?jt ! j \<in> set (points ?jt)" by simp
    then obtain q where "joint_point ?perm (points ?jt ! j) = Some q"
      "time_from_start q = time_from_start (points ?jt ! j)"
      using wf joint_point_Some [OF rng, of "points ?jt ! j"]
      unfolding well_formed_trajectory_def by blast
    then show "time_from_start (pts ! j) = time_from_start (points ?jt ! j)"
      using pts(3) j by auto
  qed
  show ?thesis using I pts(1,2) tfs by (simp add: joint_part_def Let_def)
qed

lemma mdof_part_nonempty:
  assumes wf: "well_formed_trajectory t"
    and ne: "A \<inter> set (mdof_joint_names (multi_dof_joint_trajectory t)) \<noteq> {}"
  shows "\<exists>mp. mdof_part (multi_dof_joint_trajectory t)
                 (set_intersection A (set (mdof_joint_names (multi_dof_joint_trajectory t)))) = Some mp \<and>
              length (mdof_points mp) = length (mdof_points (multi_dof_joint_trajectory t)) \<and>
              (\<forall>j < length (mdof_points (multi_dof_joint_trajectory t)).
                 mdof_time_from_start (mdof_points mp ! j) =
                 mdof_time_from_start (mdof_points (multi_dof_joint_trajectory t) ! j))"
proof -
  let ?mt = "multi_dof_joint_trajectory t"
  let ?I = "set_intersection A (set (mdof_joint_names ?mt))"
  let ?perm = "bijection_of (mdof_joint_names ?mt) ?I"
  have I: "?I \<noteq> []" using ne by (simp add: set_intersection_Nil)
  have rng: "list_all (\<lambda>k. k < length (mdof_joint_names ?mt)) ?perm"
    by (rule bijection_of_in_range) (simp add: set_set_intersection)
  have "\<forall>p \<in> set (mdof_points ?mt). \<exists>q. mdof_point ?perm p = Some q"
    using wf mdof_point_Some [OF rng] unfolding well_formed_trajectory_def by blast
  from those_map_Some [OF this] obtain pts where pts:
    "those (map (mdof_point ?perm) (mdof_points ?mt)) = Some pts" "length pts = length (mdof_points ?mt)"
    "\<forall>j < length (mdof_points ?mt). mdof_point ?perm (mdof_points ?mt ! j) = Some (pts ! j)" by blast
  have tfs: "\<forall>j < length (mdof_points ?mt).
      mdof_time_from_start (pts ! j) = mdof_time_from_start (mdof_points ?mt ! j)"
  proof (intro allI impI)
    fix j assume j: "j < length (mdof_points ?mt)"
    then have "mdof_points ?mt ! j \<in> set (mdof_points ?mt)" by simp
    then obtain q where "mdof_point ?perm (mdof_points ?mt ! j) = Some q"
      "mdof_time_from_start q = mdof_time_from_start (mdof_points ?mt ! j)"
      using wf mdof_point_Some [OF rng, of "mdof_points ?mt ! j"]
      unfolding well_formed_trajectory_def by blast
    then show "mdof_time_from_start (pts ! j) = mdof_time_from_start (mdof_points ?mt ! j)"
      using pts(3) j by auto
  qed
  show ?thesis using I pts(1,2) tfs by (simp add: mdof_part_def Let_def)
qed

lemma controller_part_kept:
  assumes wf: "well_formed_trajectory t"
  shows "\<exists>p. controller_part ci t = Some p \<and> timestamps_kept ci t p"
proof -
  let ?Im = "set_intersection (joints ci) (set (mdof_joint_names (multi_dof_joint_trajectory t)))"
  let ?Is = "set_intersection (joints ci) (set (joint_names (joint_trajectory t)))"
  have m: "\<exists>mp. mdof_part (multi_dof_joint_trajectory t) ?Im = Some mp \<and>
      (joints ci \<inter> set (mdof_joint_names (multi_dof_joint_trajectory t)) \<noteq> {} \<longrightarrow>
         length (mdof_points mp) = length (mdof_points (multi_dof_joint_trajectory t)) \<and>
         (\<forall>j < length (mdof_points (multi_dof_joint_trajectory t)).
            mdof_time_from_start (mdof_points mp ! j) =
            mdof_time_from_start (mdof_points (multi_dof_joint_trajectory t) ! j))) \<and>
      (joints ci \<inter> set (mdof_joint_names (multi_dof_joint_trajectory t)) = {} \<longrightarrow>
         mp = empty_mdof_trajectory)"
  proof (cases "joints ci \<inter> set (mdof_joint_names (multi_dof_joint_trajectory t)) = {}")
    case True
    then show ?thesis by (simp add: mdof_part_def set_intersection_Nil)
  next
    case False
    from mdof_part_nonempty [OF wf False] False show ?thesis by auto
  qed
  have s: "\<exists>jp. joint_part (joint_trajectory t) ?Is = Some jp \<and>
      (joints ci \<inter> set (joint_names (joint_trajectory t)) \<noteq> {} \<longrightarrow>
         length (points jp) = length (points (joint_trajectory t)) \<and>
         (\<forall>j < length (points (joint_trajectory t)).
            time_from_start (points jp ! j) = time_from_start (points (joint_trajectory t) ! j))) \<and>
      (joints ci \<inter> set (joint_names (joint_trajectory t)) = {} \<longrightarrow> jp = empty_joint_trajectory)"
  proof (cases "joints ci \<inter> set (joint_names (joint_trajectory t)) = {}")
    case True
    then show ?thesis by (simp add: joint_part_def set_intersection_Nil)
  next
    case False
    from joint_part_nonempty [OF wf False] False show ?thesis by auto
  qed
  from m s show ?thesis
    by (auto simp: controller_part_def Let_def timestamps_kept_def)
qed

text \<open>
  Claim C9. For a well-formed trajectory and selected controllers that are all known, the
  split succeeds with one part per controller. A controller whose joints meet the joint
  names of the trajectory gets a part with exactly one point per point of the trajectory,
  the \<open>j\<close>-th with the \<open>time_from_start\<close> of the \<open>j\<close>-th input point (for the joint
  trajectory and for the multi-DOF trajectory alike); a controller whose joints meet
  neither gets the empty part.
\<close>

theorem distributeTrajectory_keeps_timestamps:
  assumes wf: "well_formed_trajectory t"
    and known_all: "\<forall>c \<in> set cs. r c \<noteq> None"
  shows "\<exists>parts. distributeTrajectory r t cs = Inr parts \<and> length parts = length cs \<and>
           (\<forall>i < length cs. timestamps_kept (known r (cs ! i)) t (parts ! i))"
  using known_all
proof (induction cs)
  case Nil
  then show ?case by simp
next
  case (Cons c cs)
  then obtain ci where ci: "r c = Some ci" by auto
  from controller_part_kept [OF wf, of ci] obtain p where
    p: "controller_part ci t = Some p" "timestamps_kept ci t p" by blast
  from Cons obtain parts where parts: "distributeTrajectory r t cs = Inr parts"
    "length parts = length cs" "\<forall>i < length cs. timestamps_kept (known r (cs ! i)) t (parts ! i)"
    by auto
  have "distributeTrajectory r t (c # cs) = Inr (p # parts)" using ci p(1) parts(1) by simp
  moreover have "\<forall>i < length (c # cs). timestamps_kept (known r ((c # cs) ! i)) t ((p # parts) ! i)"
    using p(2) parts(3) ci by (auto simp: nth_Cons known_def split: nat.splits)
  ultimately show ?case using parts(2) by auto
qed

lemma wf2: "well_formed_trajectory traj2"
  by (simp add: well_formed_trajectory_def traj2_def no_mdof_def)

theorem distributeTrajectory_keeps_timestamps_witness:
  "well_formed_trajectory traj2 \<and> reg2 ''arm'' \<noteq> None \<and> reg2 ''gripper'' \<noteq> None \<and>
   (\<exists>parts. distributeTrajectory reg2 traj2 [''arm'', ''gripper''] = Inr parts \<and>
      map time_from_start (points (joint_trajectory (parts ! 0))) = [0, 500000000, 1000000000] \<and>
      parts ! 1 = empty_part)"
proof -
  have k: "\<forall>c \<in> set [''arm'', ''gripper'']. reg2 c \<noteq> None" by (simp add: reg2_def)
  have e: "distributeTrajectory reg2 traj2 [''arm'', ''gripper''] =
     Inr [\<lparr>joint_trajectory =
        \<lparr>stamp = 5000000000, joint_names = [''j1'', ''j2''],
         points = [\<lparr>positions = [1, 0], velocities = [], accelerations = [], time_from_start = 0\<rparr>,
                   \<lparr>positions = [3, 2], velocities = [], accelerations = [], time_from_start = 500000000\<rparr>,
                   \<lparr>positions = [5, 4], velocities = [], accelerations = [], time_from_start = 1000000000\<rparr>]\<rparr>,
      multi_dof_joint_trajectory = empty_mdof_trajectory\<rparr>, empty_part]"
    by (simp add: reg2_def traj2_def info_def controller_part_def set_intersection_def no_mdof_def
        mdof_part_def joint_part_def bijection_of_def joint_point_def project_unless_empty_def
        project_def empty_part_def)
  have k': "reg2 ''arm'' \<noteq> None \<and> reg2 ''gripper'' \<noteq> None" using k by simp
  from distributeTrajectory_keeps_timestamps [OF wf2 k] e k' wf2 show ?thesis by simp
qed


section \<open>Properties of double rounding\<close>

lemma round_to_double_0: "round_to_double 0 = 0"
  by (simp add: round_to_double_def)

text \<open>The binary exponent found is the right one.\<close>

lemma binade_from_eq:
  "power_int 2 e \<le> x \<Longrightarrow> x < power_int 2 (e + 1) \<Longrightarrow> nat \<bar>e\<bar> \<le> n \<Longrightarrow> binade_from n x = e"
proof (induction n arbitrary: x e)
  case 0
  then show ?case by simp
next
  case (Suc n)
  have two: "power_int (2::real) (e + 1) = 2 * power_int 2 e"
    by (rule power_int_add_1') simp
  have two': "power_int (2::real) (e - 1 + 1) = 2 * power_int 2 (e - 1)"
    by (rule power_int_add_1') simp
  show ?case
  proof (cases "x < 1")
    case True
    have neg: "e < 0"
    proof (rule ccontr)
      assume "\<not> e < 0"
      then have "power_int (2::real) 0 \<le> power_int 2 e" by (intro power_int_increasing) auto
      then show False using Suc.prems(1) True by simp
    qed
    have "power_int 2 (e + 1) \<le> 2 * x" using Suc.prems(1) two by simp
    moreover have "2 * x < power_int 2 (e + 1 + 1)"
      using Suc.prems(2) power_int_add_1' [of "2::real" "e + 1"] by simp
    moreover have "nat \<bar>e + 1\<bar> \<le> n" using Suc.prems(3) neg by simp
    ultimately have "binade_from n (2 * x) = e + 1" by (rule Suc.IH)
    then show ?thesis using True by simp
  next
    case False
    show ?thesis
    proof (cases "2 \<le> x")
      case True
      have pos: "0 < e"
      proof (rule ccontr)
        assume "\<not> 0 < e"
        then have "power_int (2::real) (e + 1) \<le> power_int 2 1" by (intro power_int_increasing) auto
        then show False using Suc.prems(2) True by simp
      qed
      have "power_int 2 (e - 1) \<le> x / 2" using Suc.prems(1) two' by simp
      moreover have "x / 2 < power_int 2 (e - 1 + 1)" using Suc.prems(2) two by simp
      moreover have "nat \<bar>e - 1\<bar> \<le> n" using Suc.prems(3) pos by simp
      ultimately have "binade_from n (x / 2) = e - 1" by (rule Suc.IH)
      then show ?thesis using True False by simp
    next
      case F2: False
      have "\<not> e < 0"
      proof
        assume "e < 0"
        then have "power_int (2::real) (e + 1) \<le> power_int 2 0" by (intro power_int_increasing) auto
        then show False using Suc.prems(2) False by simp
      qed
      moreover have "\<not> 0 < e"
      proof
        assume "0 < e"
        then have "power_int (2::real) 1 \<le> power_int 2 e" by (intro power_int_increasing) auto
        then show False using Suc.prems(1) F2 by simp
      qed
      ultimately have "e = 0" by simp
      then show ?thesis using False F2 by simp
    qed
  qed
qed

text \<open>The rounding of a number whose binary exponent is known.\<close>

lemma round_to_double_scaled:
  assumes lo: "2 ^ 52 \<le> \<bar>x\<bar> * 2 ^ k" and hi: "\<bar>x\<bar> * 2 ^ k < 2 ^ 53" and k: "k \<le> 1000"
  shows "round_to_double x = of_int (round_half_even (x * 2 ^ k)) / 2 ^ k"
proof -
  have x0: "x \<noteq> 0" using lo by auto
  have pk: "power_int (2::real) (int k) = 2 ^ k" by simp
  have p52: "power_int (2::real) 52 = 2 ^ 52" "power_int (2::real) 53 = 2 ^ 53" by simp_all
  have d: "power_int (2::real) (52 - int k) = 2 ^ 52 / 2 ^ k"
    using power_int_diff [of "2::real" 52 "int k"] by simp
  have d1: "power_int (2::real) (52 - int k + 1) = 2 ^ 53 / 2 ^ k"
    using power_int_diff [of "2::real" 53 "int k"] by (simp add: algebra_simps)
  have "power_int 2 (52 - int k) \<le> \<bar>x\<bar>"
    unfolding d using lo by (simp add: field_simps)
  moreover have "\<bar>x\<bar> < power_int 2 (52 - int k + 1)"
    unfolding d1 using hi by (simp add: field_simps)
  moreover have "nat \<bar>52 - int k\<bar> \<le> 1100" using k by simp
  ultimately have e: "binade_from 1100 \<bar>x\<bar> = 52 - int k" by (rule binade_from_eq)
  have p1: "power_int (2::real) (52 - (52 - int k)) = 2 ^ k" by simp
  have p2: "power_int (2::real) (52 - int k - 52) = 1 / 2 ^ k"
    using power_int_minus_divide [of "2::real" "int k"] by simp
  have "round_to_double x =
          of_int (round_half_even (x * power_int 2 (52 - (52 - int k)))) *
            power_int 2 (52 - int k - 52)"
    using x0 by (simp only: round_to_double_def Let_def e if_False)
  then show ?thesis unfolding p1 p2 by simp
qed



text \<open>
  The rounding of a number between \<open>1/32\<close> and \<open>16\<close>, with the binary exponent
  found by comparisons.
\<close>

lemma round_to_double_cascade:
  assumes "1 / 32 \<le> \<bar>x\<bar>" "\<bar>x\<bar> < 16"
  shows "round_to_double x =
     (if 8 \<le> \<bar>x\<bar> then of_int (round_half_even (x * 2 ^ 49)) / 2 ^ 49
      else if 4 \<le> \<bar>x\<bar> then of_int (round_half_even (x * 2 ^ 50)) / 2 ^ 50
      else if 2 \<le> \<bar>x\<bar> then of_int (round_half_even (x * 2 ^ 51)) / 2 ^ 51
      else if 1 \<le> \<bar>x\<bar> then of_int (round_half_even (x * 2 ^ 52)) / 2 ^ 52
      else if 1 / 2 \<le> \<bar>x\<bar> then of_int (round_half_even (x * 2 ^ 53)) / 2 ^ 53
      else if 1 / 4 \<le> \<bar>x\<bar> then of_int (round_half_even (x * 2 ^ 54)) / 2 ^ 54
      else if 1 / 8 \<le> \<bar>x\<bar> then of_int (round_half_even (x * 2 ^ 55)) / 2 ^ 55
      else if 1 / 16 \<le> \<bar>x\<bar> then of_int (round_half_even (x * 2 ^ 56)) / 2 ^ 56
      else of_int (round_half_even (x * 2 ^ 57)) / 2 ^ 57)"
proof -
  have r: "\<And>k. 2 ^ 52 \<le> \<bar>x\<bar> * 2 ^ k \<Longrightarrow> \<bar>x\<bar> * 2 ^ k < 2 ^ 53 \<Longrightarrow> k \<le> 1000 \<Longrightarrow>
      round_to_double x = of_int (round_half_even (x * 2 ^ k)) / 2 ^ k"
    by (rule round_to_double_scaled)
  consider "8 \<le> \<bar>x\<bar>" | "4 \<le> \<bar>x\<bar>" "\<bar>x\<bar> < 8" | "2 \<le> \<bar>x\<bar>" "\<bar>x\<bar> < 4" | "1 \<le> \<bar>x\<bar>" "\<bar>x\<bar> < 2"
    | "1 / 2 \<le> \<bar>x\<bar>" "\<bar>x\<bar> < 1" | "1 / 4 \<le> \<bar>x\<bar>" "\<bar>x\<bar> < 1 / 2" | "1 / 8 \<le> \<bar>x\<bar>" "\<bar>x\<bar> < 1 / 4"
    | "1 / 16 \<le> \<bar>x\<bar>" "\<bar>x\<bar> < 1 / 8" | "\<bar>x\<bar> < 1 / 16"
    by linarith
  then show ?thesis
  proof cases
    case 1 then show ?thesis using r [of 49] assms by simp
  next
    case 2 then show ?thesis using r [of 50] by simp
  next
    case 3 then show ?thesis using r [of 51] by simp
  next
    case 4 then show ?thesis using r [of 52] by simp
  next
    case 5 then show ?thesis using r [of 53] by simp
  next
    case 6 then show ?thesis using r [of 54] by simp
  next
    case 7 then show ?thesis using r [of 55] by simp
  next
    case 8 then show ?thesis using r [of 56] by simp
  next
    case 9 then show ?thesis using r [of 57] assms by simp
  qed
qed

lemmas double_simps = round_half_even_def round_to_double_0 round_to_double_cascade

lemma LONG_RANGE_JOINT_DIFF_value:
  "LONG_RANGE_JOINT_DIFF = 3602879701896397 / 36028797018963968"
  by (simp add: LONG_RANGE_JOINT_DIFF_def double_simps)



section \<open>The maximum integer distance\<close>

lemma foldl_max_Max_int:
  "foldl (\<lambda>max_dist i. (let dist = f i in if dist > max_dist then dist else max_dist)) a [0..<n] =
     Max (insert (a::int) (f ` {..<n}))"
proof (induction n)
  case 0
  then show ?case by simp
next
  case (Suc n)
  define M where "M = Max (insert a (f ` {..<n}))"
  have "insert a (f ` {..<Suc n}) = insert (f n) (insert a (f ` {..<n}))"
    by (auto simp: lessThan_Suc)
  then have step: "Max (insert a (f ` {..<Suc n})) = max (f n) M"
    unfolding M_def
    by (simp only: Max_insert [OF finite_insert [THEN iffD2, OF finite_imageI [OF finite_lessThan]] insert_not_empty])
  have "foldl (\<lambda>max_dist i. (let dist = f i in if dist > max_dist then dist else max_dist)) a [0..<Suc n] =
        (if f n > M then f n else M)"
    unfolding M_def Suc [symmetric] by (simp add: Let_def)
  also have "\<dots> = max (f n) M" by (simp add: max_def)
  finally show ?case by (simp only: step)
qed

text \<open>
  The loop of \<^verbatim>\<open>getJointDistanceIntegerMax\<close> (lines 581-588) yields the maximum over
  all the joints of the integer distances, and 0 if that is negative.
\<close>

lemma integer_max_eq:
  assumes "length a = length b"
  shows "getJointDistanceIntegerMax env a b = Max (set (0 # integer_distances env a b))"
proof -
  have "set (integer_distances env a b) =
          (\<lambda>j. getIntegerDistance env j (a ! j) (b ! j) LONG_RANGE_JOINT_DIFF) ` {..<length a}"
    by (auto simp: integer_distances_def)
  then show ?thesis
    using assms by (simp add: getJointDistanceIntegerMax_def foldl_max_Max_int)
qed

lemma integer_max_one:
  assumes "length a = length b"
  shows "getJointDistanceIntegerMax env a b = 1 \<longleftrightarrow> maxInt_is_one env a b"
proof (cases "integer_distances env a b = []")
  case True
  then show ?thesis using assms by (simp add: integer_max_eq maxInt_is_one_def)
next
  case False
  then have "Max (set (0 # integer_distances env a b)) = max 0 (Max (set (integer_distances env a b)))"
    by simp
  then show ?thesis using assms False by (auto simp: integer_max_eq maxInt_is_one_def max_def)
qed

lemma expand_candidate_identify:
  assumes "length (fst (snd cand)) = length (angles goal)"
  shows "expand_candidate env goal st cand = identify env goal st cand"
  using assms
  by (cases cand; cases st) (simp add: expand_candidate_def identify_def integer_max_one)

lemma fold_expand_identify:
  assumes "\<forall>cand \<in> set cands. length (fst (snd cand)) = length (angles goal)"
  shows "foldl (expand_candidate env goal) st cands = foldl (identify env goal) st cands"
  using assms
  by (induction cands arbitrary: st) (simp_all add: expand_candidate_identify)

lemma expanded_placed:
  assumes "length (fst (snd cand)) = length (angles goal)"
  shows "expanded env goal pd' cand succ = placed env goal pd' cand succ"
  using assms by (simp add: expanded_def placed_def integer_max_one)

lemma all_expanded_placed:
  assumes "\<forall>cand \<in> set cands. length (fst (snd cand)) = length (angles goal)"
    and "list_all2 (expanded env goal pd') cands succs"
  shows "list_all2 (placed env goal pd') cands succs"
  using assms(2,1)
  by (induction rule: list_all2_induct) (simp_all add: expanded_placed)

section \<open>Properties of the search environment\<close>

lemma surviving_Nil: "surviving_candidates env source i [] = []"
  by (simp add: surviving_candidates_def map_filter_simps)

lemma surviving_Cons:
  "surviving_candidates env source i (act # rest) =
     (case survives env source (i, act) of
        None \<Rightarrow> surviving_candidates env source (Suc i) rest
      | Some c \<Rightarrow> c # surviving_candidates env source (Suc i) rest)"
  by (simp add: surviving_candidates_def map_filter_simps split: option.splits)

lemma expand_actions_fold:
  "expand_actions env goal hash_entry acts i pd succs =
     foldl (expand_candidate env goal) (pd, succs) (surviving_candidates env (angles hash_entry) i acts)"
proof (induction acts arbitrary: i pd succs)
  case Nil
  then show ?case by (simp add: surviving_Nil)
next
  case (Cons act rest)
  show ?case
    by (auto simp: surviving_Cons survives_def Cons.IH expand_candidate_def Let_def calculateCost_def
             split: option.splits prod.splits)
qed

lemma setup_success:
  assumes "setupForMotionPlan env sc pd = (None, pd')"
  shows "\<exists>se ge.
     stateID se = int (length (state_ID_to_coord_table pd)) \<and>
     coord se = convertJointAnglesToCoord env (start_joint_values sc) \<and>
     angles se = start_joint_values sc \<and>
     stateID ge = int (length (state_ID_to_coord_table pd)) + 1 \<and>
     coord ge = convertJointAnglesToCoord env (goal_joint_values sc) \<and>
     angles ge = goal_joint_values sc \<and>
     state_ID_to_coord_table pd' = state_ID_to_coord_table pd @ [se, ge] \<and>
     coord_to_state_ID_table pd' = (coord_to_state_ID_table pd)(coord se \<mapsto> se, coord ge \<mapsto> ge) \<and>
     start_hash_entry pd' = Some se \<and> goal_hash_entry pd' = Some ge"
proof -
  from assms obtain sv gv where ok: "has_collision_world sc" "has_collision_robot sc"
    "\<not> start_in_collision sc" "field_sizes_match sc" "start_xyz sc = Some sv"
    "\<not> goal_in_collision sc" "goal_xyz sc = Some gv"
    by (auto simp: setupForMotionPlan_def addHashEntry_def Let_def split: if_splits option.splits)
  let ?se = "\<lparr>stateID = int (length (state_ID_to_coord_table pd)),
           coord = convertJointAnglesToCoord env (start_joint_values sc),
           angles = start_joint_values sc, xyz = sv, action = 0\<rparr>"
  let ?ge = "\<lparr>stateID = int (length (state_ID_to_coord_table pd)) + 1,
           coord = convertJointAnglesToCoord env (goal_joint_values sc),
           angles = goal_joint_values sc, xyz = gv, action = 0\<rparr>"
  have "state_ID_to_coord_table pd' = state_ID_to_coord_table pd @ [?se, ?ge] \<and>
     coord_to_state_ID_table pd' = (coord_to_state_ID_table pd)(coord ?se \<mapsto> ?se, coord ?ge \<mapsto> ?ge) \<and>
     start_hash_entry pd' = Some ?se \<and> goal_hash_entry pd' = Some ?ge"
    using assms ok by (auto simp: setupForMotionPlan_def addHashEntry_def Let_def add.commute)
  then show ?thesis
    by (intro exI [of _ ?se] exI [of _ ?ge]) simp
qed

lemma setup_invariant:
  assumes "setupForMotionPlan env sc empty_planning_data = (None, pd)"
  shows "table_invariant env pd"
proof -
  from setup_success [OF assms] obtain se ge where
    pd: "state_ID_to_coord_table pd = [se, ge]"
        "coord_to_state_ID_table pd = Map.empty (coord se \<mapsto> se, coord ge \<mapsto> ge)"
        "start_hash_entry pd = Some se" "goal_hash_entry pd = Some ge"
        "stateID se = 0" "stateID ge = 1"
        "coord se = convertJointAnglesToCoord env (angles se)"
        "coord ge = convertJointAnglesToCoord env (angles ge)"
    by (auto simp: empty_planning_data_def)
  show ?thesis
    unfolding table_invariant_def pd(1,2,3,4)
    using pd(5-8) by (auto simp: less_Suc_eq split: if_splits)
qed


lemma add_invariant:
  assumes inv: "table_invariant env pd"
    and miss: "coord_to_state_ID_table pd (convertJointAnglesToCoord env a) = None"
    and add: "addHashEntry pd (convertJointAnglesToCoord env a) a v act = (e, pd')"
  shows "table_invariant env pd'"
proof -
  let ?T = "state_ID_to_coord_table pd" and ?M = "coord_to_state_ID_table pd"
  let ?c = "convertJointAnglesToCoord env a"
  have e: "e = \<lparr>stateID = int (length ?T), coord = ?c, angles = a, xyz = v, action = act\<rparr>"
    and T': "state_ID_to_coord_table pd' = ?T @ [e]"
    and M': "coord_to_state_ID_table pd' = ?M(?c \<mapsto> e)"
    and ptr: "start_hash_entry pd' = start_hash_entry pd" "goal_hash_entry pd' = goal_hash_entry pd"
    using add by (auto simp: addHashEntry_def Let_def)
  have ce: "coord e = ?c" "stateID e = int (length ?T)" "angles e = a" using e by simp_all
  have a: "\<forall>i < length ?T. stateID (?T ! i) = int i"
    and b: "\<forall>c x. ?M c = Some x \<longrightarrow> x \<in> set ?T \<and> coord x = c"
    and c: "\<forall>x \<in> set ?T. ?M (coord x) \<noteq> None"
    and f: "\<forall>x \<in> set ?T. coord x = convertJointAnglesToCoord env (angles x)"
    and d: "\<forall>i j. i < j \<and> j < length ?T \<and> coord (?T ! i) = coord (?T ! j) \<longrightarrow> i = 0 \<and> j = 1"
    and len: "2 \<le> length ?T"
    and sp: "start_hash_entry pd = Some (?T ! 0)" and gp: "goal_hash_entry pd = Some (?T ! 1)"
    using inv unfolding table_invariant_def by blast+
  have fresh: "\<forall>x \<in> set ?T. coord x \<noteq> ?c" using c miss by auto
  have a': "\<forall>i < length (?T @ [e]). stateID ((?T @ [e]) ! i) = int i"
    using a ce(2) by (auto simp: nth_append less_Suc_eq)
  have b': "\<forall>c x. (?M(?c \<mapsto> e)) c = Some x \<longrightarrow> x \<in> set (?T @ [e]) \<and> coord x = c"
    using b ce(1) by auto
  have c': "\<forall>x \<in> set (?T @ [e]). (?M(?c \<mapsto> e)) (coord x) \<noteq> None"
    using c ce(1) by auto
  have f': "\<forall>x \<in> set (?T @ [e]). coord x = convertJointAnglesToCoord env (angles x)"
    using f ce by auto
  have d': "\<forall>i j. i < j \<and> j < length (?T @ [e]) \<and> coord ((?T @ [e]) ! i) = coord ((?T @ [e]) ! j)
              \<longrightarrow> i = 0 \<and> j = 1"
  proof (intro allI impI)
    fix i j assume h: "i < j \<and> j < length (?T @ [e]) \<and> coord ((?T @ [e]) ! i) = coord ((?T @ [e]) ! j)"
    show "i = 0 \<and> j = 1"
    proof (cases "j < length ?T")
      case True
      then show ?thesis using h d by (auto simp: nth_append)
    next
      case False
      then have j: "j = length ?T" using h by simp
      then have "i < length ?T" using h by simp
      then have "?T ! i \<in> set ?T" "(?T @ [e]) ! i = ?T ! i" by (simp_all add: nth_append)
      moreover have "(?T @ [e]) ! j = e" using j by simp
      ultimately show ?thesis using h fresh ce(1) by auto
    qed
  qed
  have e': "2 \<le> length (?T @ [e])" "start_hash_entry pd' = Some ((?T @ [e]) ! 0)"
    "goal_hash_entry pd' = Some ((?T @ [e]) ! 1)"
    using len sp gp ptr by (auto simp: nth_append)
  show ?thesis
    unfolding table_invariant_def T' M' using a' b' c' f' d' e' by blast
qed

lemma expand_candidate_step:
  assumes inv: "table_invariant env pd"
    and goal: "goal_hash_entry pd = Some goal"
    and step: "expand_candidate env goal (pd, succs) (i, candidate, v) = (pd', succs')"
  shows "table_invariant env pd' \<and> goal_hash_entry pd' = Some goal \<and>
         (\<exists>ext. state_ID_to_coord_table pd' = state_ID_to_coord_table pd @ ext) \<and>
         coord_to_state_ID_table pd \<subseteq>\<^sub>m coord_to_state_ID_table pd' \<and>
         (\<exists>succ. succs' = succs @ [succ] \<and> expanded env goal pd' (i, candidate, v) succ)"
proof (cases "getJointDistanceIntegerMax env candidate (angles goal) = 1")
  case True
  then have "pd' = pd" "succs' = succs @ [(stateID goal, 1000)]"
    using step by (auto simp: expand_candidate_def)
  then show ?thesis using inv goal True by (auto simp: expanded_def)
next
  case False
  show ?thesis
  proof (cases "coord_to_state_ID_table pd (convertJointAnglesToCoord env candidate)")
    case None
    obtain e pd1 where add: "addHashEntry pd (convertJointAnglesToCoord env candidate) candidate v (int i) = (e, pd1)"
      by (cases "addHashEntry pd (convertJointAnglesToCoord env candidate) candidate v (int i)") auto
    then have res: "pd' = pd1" "succs' = succs @ [(stateID e, 1000)]"
      using step False None by (auto simp: expand_candidate_def getHashEntry_def)
    have inv1: "table_invariant env pd1" by (rule add_invariant [OF inv None add])
    have T1: "state_ID_to_coord_table pd1 = state_ID_to_coord_table pd @ [e]"
      and M1: "coord_to_state_ID_table pd1 =
                 (coord_to_state_ID_table pd)(convertJointAnglesToCoord env candidate \<mapsto> e)"
      and ae: "angles e = candidate"
      and g1: "goal_hash_entry pd1 = goal_hash_entry pd"
      using add by (auto simp: addHashEntry_def Let_def)
    have le: "coord_to_state_ID_table pd \<subseteq>\<^sub>m coord_to_state_ID_table pd1"
      unfolding M1 using None by (auto simp: map_le_def)
    have "expanded env goal pd1 (i, candidate, v) (stateID e, 1000)"
      using M1 False by (simp add: expanded_def)
    then show ?thesis using res inv1 T1 g1 goal le by simp
  next
    case (Some e)
    then have res: "pd' = pd" "succs' = succs @ [(stateID e, 1000)]"
      using step False by (auto simp: expand_candidate_def getHashEntry_def)
    have "expanded env goal pd (i, candidate, v) (stateID e, 1000)"
      using Some False by (simp add: expanded_def)
    then show ?thesis using res inv goal by simp
  qed
qed

lemma expanded_later:
  assumes "expanded env goal pd1 cand succ"
    and "coord_to_state_ID_table pd1 \<subseteq>\<^sub>m coord_to_state_ID_table pd'"
  shows "expanded env goal pd' cand succ"
proof -
  have keep: "\<And>c e. coord_to_state_ID_table pd1 c = Some e \<Longrightarrow> coord_to_state_ID_table pd' c = Some e"
    using assms(2) by (metis domI map_le_def)
  show ?thesis using assms(1) keep unfolding expanded_def by blast
qed

lemma fold_expand:
  assumes "table_invariant env pd" and "goal_hash_entry pd = Some goal"
    and "foldl (expand_candidate env goal) (pd, succs) cands = (pd', succs')"
  shows "table_invariant env pd' \<and> goal_hash_entry pd' = Some goal \<and>
         (\<exists>ext. state_ID_to_coord_table pd' = state_ID_to_coord_table pd @ ext) \<and>
         coord_to_state_ID_table pd \<subseteq>\<^sub>m coord_to_state_ID_table pd' \<and>
         (\<exists>new. succs' = succs @ new \<and> list_all2 (expanded env goal pd') cands new)"
  using assms
proof (induction cands arbitrary: pd succs)
  case Nil
  then show ?case by simp
next
  case (Cons cand rest)
  obtain i candidate v where cand: "cand = (i, candidate, v)" by (cases cand) auto
  obtain pd1 succs1 where st: "expand_candidate env goal (pd, succs) (i, candidate, v) = (pd1, succs1)"
    by (cases "expand_candidate env goal (pd, succs) (i, candidate, v)") auto
  from expand_candidate_step [OF Cons.prems(1,2) st] obtain ext1 succ where
    s1: "table_invariant env pd1" "goal_hash_entry pd1 = Some goal"
        "state_ID_to_coord_table pd1 = state_ID_to_coord_table pd @ ext1"
        "coord_to_state_ID_table pd \<subseteq>\<^sub>m coord_to_state_ID_table pd1"
        "succs1 = succs @ [succ]" "expanded env goal pd1 cand succ"
    unfolding cand by blast
  have fold1: "foldl (expand_candidate env goal) (pd1, succs1) rest = (pd', succs')"
    using Cons.prems(3) cand st by simp
  from Cons.IH [OF s1(1,2) fold1] obtain ext2 new where
    s2: "table_invariant env pd'" "goal_hash_entry pd' = Some goal"
        "state_ID_to_coord_table pd' = state_ID_to_coord_table pd1 @ ext2"
        "coord_to_state_ID_table pd1 \<subseteq>\<^sub>m coord_to_state_ID_table pd'"
        "succs' = succs1 @ new" "list_all2 (expanded env goal pd') rest new"
    by blast
  have le: "coord_to_state_ID_table pd \<subseteq>\<^sub>m coord_to_state_ID_table pd'"
    using s1(4) s2(4) by (rule map_le_trans)
  have first: "expanded env goal pd' cand succ" by (rule expanded_later [OF s1(6) s2(4)])
  have others: "list_all2 (expanded env goal pd') rest new" by (rule s2(6))
  have all: "list_all2 (expanded env goal pd') (cand # rest) (succ # new)"
    using first others by simp
  have eq: "succs' = succs @ (succ # new)" using s1(5) s2(5) by simp
  have ext: "\<exists>ext. state_ID_to_coord_table pd' = state_ID_to_coord_table pd @ ext"
    using s1(3) s2(3) by simp
  from s2(1,2) ext le eq all show ?case by blast
qed

lemma GetSuccs_fold:
  assumes "goal_hash_entry pd = Some goal" "sid \<noteq> stateID goal"
    "0 \<le> sid" "sid < int (length (state_ID_to_coord_table pd))"
  shows "GetSuccs env pd sid =
     Some (foldl (expand_candidate env goal) (pd, [])
            (surviving_candidates env (angles (state_ID_to_coord_table pd ! nat sid)) 0
               (possible_actions env)))"
  using assms by (simp add: GetSuccs_def expand_actions_fold)

lemma GetSuccs_invariant:
  assumes inv: "table_invariant env pd" and g: "GetSuccs env pd sid = Some (pd', succs)"
  shows "table_invariant env pd' \<and> goal_hash_entry pd' = goal_hash_entry pd \<and>
         (\<exists>ext. state_ID_to_coord_table pd' = state_ID_to_coord_table pd @ ext)"
proof -
  obtain goal where goal: "goal_hash_entry pd = Some goal"
    using inv unfolding table_invariant_def by blast
  show ?thesis
  proof (cases "sid \<noteq> stateID goal \<and> 0 \<le> sid \<and> sid < int (length (state_ID_to_coord_table pd))")
    case True
    then have "foldl (expand_candidate env goal) (pd, [])
            (surviving_candidates env (angles (state_ID_to_coord_table pd ! nat sid)) 0
               (possible_actions env)) = (pd', succs)"
      using GetSuccs_fold [OF goal, of sid env] g by simp
    from fold_expand [OF inv goal this] have "table_invariant env pd'" "goal_hash_entry pd' = Some goal"
      "\<exists>ext. state_ID_to_coord_table pd' = state_ID_to_coord_table pd @ ext" by blast+
    then show ?thesis using goal by simp
  next
    case False
    then have "pd' = pd" using g goal by (auto simp: GetSuccs_def split: if_splits)
    then show ?thesis using inv by simp
  qed
qed

lemma reachable_invariant:
  assumes "reachable env sc pd"
  shows "table_invariant env pd \<and>
         coord (state_ID_to_coord_table pd ! 0) = convertJointAnglesToCoord env (start_joint_values sc) \<and>
         coord (state_ID_to_coord_table pd ! 1) = convertJointAnglesToCoord env (goal_joint_values sc)"
  using assms
proof (induction rule: reachable.induct)
  case (after_setup pd)
  from setup_success [OF after_setup] have
    "coord (state_ID_to_coord_table pd ! 0) = convertJointAnglesToCoord env (start_joint_values sc)"
    "coord (state_ID_to_coord_table pd ! 1) = convertJointAnglesToCoord env (goal_joint_values sc)"
    by (auto simp: empty_planning_data_def)
  then show ?case using setup_invariant [OF after_setup] by simp
next
  case (after_GetSuccs pd sid pd' succs)
  from GetSuccs_invariant [OF _ after_GetSuccs(2)] after_GetSuccs(3) obtain ext where
    i: "table_invariant env pd'" "state_ID_to_coord_table pd' = state_ID_to_coord_table pd @ ext"
    by blast
  have "2 \<le> length (state_ID_to_coord_table pd)"
    using after_GetSuccs(3) unfolding table_invariant_def by blast
  then have "state_ID_to_coord_table pd' ! 0 = state_ID_to_coord_table pd ! 0"
    "state_ID_to_coord_table pd' ! 1 = state_ID_to_coord_table pd ! 1"
    unfolding i(2) by (auto simp: nth_append)
  then show ?case using i(1) after_GetSuccs(3) by simp
qed


section \<open>Setup and the state table\<close>

lemmas arm_defs = two_joints_def blocked_joint_def one_joint_def coarse_joint_def bounded_arm_def
  free_scene_def empty_planning_data_def
  setup_data_def setup_result_def setupForMotionPlan_def addHashEntry_def getHashEntry_def
  discretise_def LONG_RANGE_JOINT_DIFF_value double_simps Let_def coords_by_id_def angles_by_id_def
  start_and_goal_id_def SizeofCreatedEnv_def

text \<open>
  Claim C2 as stated does not hold: the start entry is added (line 433) before the goal
  is checked (lines 451 and 463), so a setup that fails with GOAL_IN_COLLISION leaves
  one entry.
\<close>

theorem failed_setup_counterexample:
  "setup_result two_joints ((free_scene [0, 0] [1/2, 0])\<lparr>goal_in_collision := True\<rparr>) = Some GOAL_IN_COLLISION \<and>
   SizeofCreatedEnv (setup_data two_joints ((free_scene [0, 0] [1/2, 0])\<lparr>goal_in_collision := True\<rparr>)) = 1"
  by (simp add: arm_defs)

text \<open>
  Claim C2, amended. A setup on a fresh environment that fails with
  COLLISION_CHECKING_UNAVAILABLE, START_STATE_IN_COLLISION or INVALID_ROBOT_STATE leaves
  the environment empty (\<open>SizeofCreatedEnv\<close> is 0); one that fails with
  GOAL_IN_COLLISION or INVALID_GOAL_CONSTRAINTS leaves exactly the start entry
  (\<open>SizeofCreatedEnv\<close> is 1) and no goal entry.
\<close>

theorem failed_setup_size:
  assumes "setupForMotionPlan env sc empty_planning_data = (Some err, pd')"
  shows "(err \<in> {COLLISION_CHECKING_UNAVAILABLE, START_STATE_IN_COLLISION, INVALID_ROBOT_STATE} \<longrightarrow>
            pd' = empty_planning_data \<and> SizeofCreatedEnv pd' = 0) \<and>
         (err \<in> {GOAL_IN_COLLISION, INVALID_GOAL_CONSTRAINTS} \<longrightarrow>
            SizeofCreatedEnv pd' = 1 \<and>
            map angles (state_ID_to_coord_table pd') = [start_joint_values sc] \<and>
            start_hash_entry pd' \<noteq> None \<and> goal_hash_entry pd' = None)"
  using assms
  by (auto simp: setupForMotionPlan_def addHashEntry_def Let_def SizeofCreatedEnv_def
        empty_planning_data_def split: if_splits option.splits)

theorem failed_setup_size_witness:
  "setupForMotionPlan two_joints ((free_scene [0, 0] [1/2, 0])\<lparr>start_in_collision := True\<rparr>)
     empty_planning_data = (Some START_STATE_IN_COLLISION, empty_planning_data) \<and>
   SizeofCreatedEnv empty_planning_data = 0"
proof -
  have s: "setupForMotionPlan two_joints ((free_scene [0, 0] [1/2, 0])\<lparr>start_in_collision := True\<rparr>)
     empty_planning_data = (Some START_STATE_IN_COLLISION, empty_planning_data)"
    by (simp add: arm_defs)
  from failed_setup_size [OF s] s show ?thesis by simp
qed

text \<open>
  Claim C1 as stated does not hold: with start and goal both at \<open>(0, 0)\<close> the setup
  succeeds and leaves two entries, IDs 0 and 1, with the same coordinate; the goal entry
  is not the start entry.
\<close>

theorem duplicate_coord_counterexample:
  "setup_result two_joints (free_scene [0, 0] [0, 0]) = None \<and>
   coords_by_id (setup_data two_joints (free_scene [0, 0] [0, 0])) = [[0, 0], [0, 0]] \<and>
   start_and_goal_id (setup_data two_joints (free_scene [0, 0] [0, 0])) = (Some 0, Some 1) \<and>
   goal_hash_entry (setup_data two_joints (free_scene [0, 0] [0, 0])) \<noteq>
   start_hash_entry (setup_data two_joints (free_scene [0, 0] [0, 0]))"
  by (simp add: arm_defs)

text \<open>
  Claim C1, amended. After a successful setup and any number of expansions, state IDs
  are the positions in the table, the start entry has ID 0 and the goal entry has ID 1,
  so the two are never the same entry; and two different state IDs have the same
  coordinate only if they are 0 and 1 and the start and the goal joint values
  discretise to the same coordinate.
\<close>

theorem reachable_coords:
  assumes "reachable env sc pd"
  shows "(\<forall>i j. i < j \<and> j < length (state_ID_to_coord_table pd) \<and>
               coord (state_ID_to_coord_table pd ! i) = coord (state_ID_to_coord_table pd ! j)
            \<longrightarrow> i = 0 \<and> j = 1 \<and>
                convertJointAnglesToCoord env (start_joint_values sc) =
                convertJointAnglesToCoord env (goal_joint_values sc)) \<and>
         (\<forall>i < length (state_ID_to_coord_table pd). stateID (state_ID_to_coord_table pd ! i) = int i) \<and>
         start_and_goal_id pd = (Some 0, Some 1) \<and>
         goal_hash_entry pd \<noteq> start_hash_entry pd"
proof -
  let ?T = "state_ID_to_coord_table pd"
  from reachable_invariant [OF assms] have inv: "table_invariant env pd"
    and c0: "coord (?T ! 0) = convertJointAnglesToCoord env (start_joint_values sc)"
    and c1: "coord (?T ! 1) = convertJointAnglesToCoord env (goal_joint_values sc)" by blast+
  have a: "\<forall>i < length ?T. stateID (?T ! i) = int i"
    and d: "\<forall>i j. i < j \<and> j < length ?T \<and> coord (?T ! i) = coord (?T ! j) \<longrightarrow> i = 0 \<and> j = 1"
    and len: "2 \<le> length ?T"
    and sp: "start_hash_entry pd = Some (?T ! 0)" and gp: "goal_hash_entry pd = Some (?T ! 1)"
    using inv unfolding table_invariant_def by blast+
  have pos: "0 < length ?T" "1 < length ?T" using len by linarith+
  have ids: "stateID (?T ! 0) = 0" "stateID (?T ! 1) = 1"
    using a [rule_format, OF pos(1)] a [rule_format, OF pos(2)] by simp_all
  have pairs: "\<forall>i j. i < j \<and> j < length ?T \<and> coord (?T ! i) = coord (?T ! j)
            \<longrightarrow> i = 0 \<and> j = 1 \<and>
                convertJointAnglesToCoord env (start_joint_values sc) =
                convertJointAnglesToCoord env (goal_joint_values sc)"
    using d c0 c1 by metis
  have "start_and_goal_id pd = (Some 0, Some 1)" using sp gp ids by (simp add: start_and_goal_id_def)
  moreover have "goal_hash_entry pd \<noteq> start_hash_entry pd" using sp gp ids by auto
  ultimately show ?thesis using pairs a by blast
qed

theorem reachable_coords_witness:
  "reachable two_joints (free_scene [0, 0] [0, 0]) (setup_data two_joints (free_scene [0, 0] [0, 0])) \<and>
   coords_by_id (setup_data two_joints (free_scene [0, 0] [0, 0])) = [[0, 0], [0, 0]] \<and>
   start_and_goal_id (setup_data two_joints (free_scene [0, 0] [0, 0])) = (Some 0, Some 1)"
proof -
  have ok: "setupForMotionPlan two_joints (free_scene [0, 0] [0, 0]) empty_planning_data =
     (None, setup_data two_joints (free_scene [0, 0] [0, 0]))"
    by (simp add: arm_defs)
  have r: "reachable two_joints (free_scene [0, 0] [0, 0]) (setup_data two_joints (free_scene [0, 0] [0, 0]))"
    by (rule reachable.after_setup [OF ok])
  have c: "coords_by_id (setup_data two_joints (free_scene [0, 0] [0, 0])) = [[0, 0], [0, 0]]"
    by (simp add: arm_defs)
  from reachable_coords [OF r] r c show ?thesis by simp
qed


section \<open>Successor generation\<close>

lemma surviving_generated:
  "(i, c, v) \<in> set (surviving_candidates env source k acts) \<Longrightarrow>
     \<exists>act \<in> set acts. act source = Some c"
proof (induction acts arbitrary: k)
  case Nil
  then show ?case by (simp add: surviving_Nil)
next
  case (Cons a acts)
  then show ?case
    by (auto simp: surviving_Cons survives_def split: option.splits if_splits)
qed

lemma new_entries_missed:
  assumes inv': "table_invariant env pd'"
    and inv: "table_invariant env pd"
    and ext: "state_ID_to_coord_table pd' = state_ID_to_coord_table pd @ ext"
    and k: "length (state_ID_to_coord_table pd) \<le> k" "k < length (state_ID_to_coord_table pd')"
  shows "coord_to_state_ID_table pd (coord (state_ID_to_coord_table pd' ! k)) = None"
proof (rule ccontr)
  let ?T = "state_ID_to_coord_table pd" and ?T' = "state_ID_to_coord_table pd'"
  assume "coord_to_state_ID_table pd (coord (?T' ! k)) \<noteq> None"
  then obtain e where e: "coord_to_state_ID_table pd (coord (?T' ! k)) = Some e" by auto
  then have "e \<in> set ?T" "coord e = coord (?T' ! k)"
    using inv unfolding table_invariant_def by blast+
  then obtain m where m: "m < length ?T" "?T ! m = e" by (auto simp: in_set_conv_nth)
  then have "?T' ! m = e" unfolding ext by (simp add: nth_append)
  then have "m < k \<and> k < length ?T' \<and> coord (?T' ! m) = coord (?T' ! k)"
    using m k \<open>coord e = coord (?T' ! k)\<close> by simp
  then have "m = 0 \<and> k = 1" using inv' unfolding table_invariant_def by blast
  moreover have "2 \<le> length ?T" using inv unfolding table_invariant_def by blast
  ultimately show False using k by simp
qed

text \<open>
  Claim C6. The expansion of a state that is in the table and is not the goal returns
  what the specification describes, when every candidate has as many angles as the
  goal: the candidates that survive primitive generation, the collision check and the
  voxel bounds are taken in order; one whose maximum over the joints of the integer
  distance to the goal is exactly 1 gets the goal's state ID; any other is looked up by
  its discretised coordinate and gets the ID of the entry found, and an entry is added
  only when the lookup misses. So every pair returned is \<open>placed\<close>, entries already in
  the table stay under their coordinates, and every entry the expansion adds has a
  coordinate that was not in the table before.
\<close>

theorem GetSuccs_absorb_lookup_add:
  assumes reach: "reachable env sc pd"
    and goal: "goal_hash_entry pd = Some goal"
    and src: "sid \<noteq> stateID goal" "0 \<le> sid" "sid < int (length (state_ID_to_coord_table pd))"
    and cands: "cands = surviving_candidates env (angles (state_ID_to_coord_table pd ! nat sid)) 0
                          (possible_actions env)"
    and joints: "\<forall>cand \<in> set cands. length (fst (snd cand)) = length (angles goal)"
  shows "\<exists>pd' succs.
           GetSuccs env pd sid = Some (pd', succs) \<and>
           (pd', succs) = foldl (identify env goal) (pd, []) cands \<and>
           list_all2 (placed env goal pd') cands succs \<and>
           coord_to_state_ID_table pd \<subseteq>\<^sub>m coord_to_state_ID_table pd' \<and>
           (\<exists>ext. state_ID_to_coord_table pd' = state_ID_to_coord_table pd @ ext) \<and>
           (\<forall>k. length (state_ID_to_coord_table pd) \<le> k \<and> k < length (state_ID_to_coord_table pd')
                \<longrightarrow> getHashEntry pd (coord (state_ID_to_coord_table pd' ! k))
                                   (action (state_ID_to_coord_table pd' ! k)) = None)"
proof -
  have inv: "table_invariant env pd" using reachable_invariant [OF reach] by blast
  obtain pd' succs where f: "foldl (expand_candidate env goal) (pd, []) cands = (pd', succs)"
    by (cases "foldl (expand_candidate env goal) (pd, []) cands") auto
  have g: "GetSuccs env pd sid = Some (pd', succs)"
    using GetSuccs_fold [OF goal src, of env] f cands by simp
  have spec: "(pd', succs) = foldl (identify env goal) (pd, []) cands"
    using f fold_expand_identify [OF joints] by simp
  from fold_expand [OF inv goal f] obtain ext where
    r: "table_invariant env pd'" "state_ID_to_coord_table pd' = state_ID_to_coord_table pd @ ext"
       "coord_to_state_ID_table pd \<subseteq>\<^sub>m coord_to_state_ID_table pd'"
       "list_all2 (expanded env goal pd') cands succs"
    by auto
  have pl: "list_all2 (placed env goal pd') cands succs"
    by (rule all_expanded_placed [OF joints r(4)])
  have new: "\<forall>k. length (state_ID_to_coord_table pd) \<le> k \<and> k < length (state_ID_to_coord_table pd')
                \<longrightarrow> getHashEntry pd (coord (state_ID_to_coord_table pd' ! k))
                                   (action (state_ID_to_coord_table pd' ! k)) = None"
    using new_entries_missed [OF r(1) inv r(2)] by (simp add: getHashEntry_def)
  have e: "\<exists>ext. state_ID_to_coord_table pd' = state_ID_to_coord_table pd @ ext"
    using r(2) by blast
  show ?thesis by (intro exI [of _ pd'] exI [of _ succs] conjI g spec pl r(3) e new)
qed

lemmas bent_defs = bent_scene_def bent_data_def arm_defs

lemmas expansion_defs = GetSuccs_def successors_def after_expansion_def setMotionPrimitives_def
  single_joint_primitive_def getJointDistanceIntegerMax_def bounded_integer_distance_def
  calculateCost_def upt_conv_Cons

lemma bent_reachable: "reachable two_joints bent_scene bent_data"
proof -
  have ok: "setupForMotionPlan two_joints bent_scene empty_planning_data = (None, bent_data)"
    by (simp add: bent_defs)
  show ?thesis by (rule reachable.after_setup [OF ok])
qed

lemma bent_goal: "goal_hash_entry bent_data = Some (entry 1 [0, 0] [0, 0] 0)"
  by (simp add: bent_defs entry_def)

lemma bent_candidates:
  "[(0, [round_to_double (2 * LONG_RANGE_JOINT_DIFF + LONG_RANGE_JOINT_DIFF), LONG_RANGE_JOINT_DIFF],
        (1, 1, 1)),
    (1, [LONG_RANGE_JOINT_DIFF, LONG_RANGE_JOINT_DIFF], (1, 1, 1)),
    (2, [2 * LONG_RANGE_JOINT_DIFF, 2 * LONG_RANGE_JOINT_DIFF], (1, 1, 1)),
    (3, [2 * LONG_RANGE_JOINT_DIFF, 0], (1, 1, 1))] =
   surviving_candidates two_joints (angles (state_ID_to_coord_table bent_data ! nat 0)) 0
     (possible_actions two_joints)"
  by (simp add: bent_defs setMotionPrimitives_def upt_conv_Cons surviving_Cons surviving_Nil
      survives_def single_joint_primitive_def)

lemma bent_successors:
  "successors (GetSuccs two_joints bent_data 0) = Some [(2, 1000), (1, 1000), (3, 1000), (4, 1000)]"
  by (simp add: bent_defs expansion_defs)

text \<open>
  The theorem at work on the two-joint arm at \<open>(0.2, 0.1)\<close> with the goal \<open>(0, 0)\<close>:
  the candidate \<open>(0.1, 0.1)\<close> has integer distances 1 and 1 to the goal and is returned
  as the goal, ID 1; the three others are added with the IDs 2, 3 and 4.
\<close>

theorem GetSuccs_absorb_lookup_add_witness:
  "reachable two_joints bent_scene bent_data \<and>
   goal_hash_entry bent_data = Some (entry 1 [0, 0] [0, 0] 0) \<and>
   integer_distances two_joints [LONG_RANGE_JOINT_DIFF, LONG_RANGE_JOINT_DIFF]
     (angles (entry 1 [0, 0] [0, 0] 0)) = [1, 1] \<and>
   maxInt_is_one two_joints [LONG_RANGE_JOINT_DIFF, LONG_RANGE_JOINT_DIFF] (angles (entry 1 [0, 0] [0, 0] 0)) \<and>
   integer_distances two_joints [2 * LONG_RANGE_JOINT_DIFF, 0] (angles (entry 1 [0, 0] [0, 0] 0)) = [2, 0] \<and>
   \<not> maxInt_is_one two_joints [2 * LONG_RANGE_JOINT_DIFF, 0] (angles (entry 1 [0, 0] [0, 0] 0)) \<and>
   (\<exists>pd' succs. GetSuccs two_joints bent_data 0 = Some (pd', succs) \<and>
      succs = [(2, 1000), (1, 1000), (3, 1000), (4, 1000)] \<and>
      list_all2 (placed two_joints (entry 1 [0, 0] [0, 0] 0) pd')
        [(0, [round_to_double (2 * LONG_RANGE_JOINT_DIFF + LONG_RANGE_JOINT_DIFF), LONG_RANGE_JOINT_DIFF],
             (1, 1, 1)),
         (1, [LONG_RANGE_JOINT_DIFF, LONG_RANGE_JOINT_DIFF], (1, 1, 1)),
         (2, [2 * LONG_RANGE_JOINT_DIFF, 2 * LONG_RANGE_JOINT_DIFF], (1, 1, 1)),
         (3, [2 * LONG_RANGE_JOINT_DIFF, 0], (1, 1, 1))] succs)"
proof -
  let ?cands = "[(0::nat, [round_to_double (2 * LONG_RANGE_JOINT_DIFF + LONG_RANGE_JOINT_DIFF),
                          LONG_RANGE_JOINT_DIFF], (1::int, 1::int, 1::int)),
         (1, [LONG_RANGE_JOINT_DIFF, LONG_RANGE_JOINT_DIFF], (1, 1, 1)),
         (2, [2 * LONG_RANGE_JOINT_DIFF, 2 * LONG_RANGE_JOINT_DIFF], (1, 1, 1)),
         (3, [2 * LONG_RANGE_JOINT_DIFF, 0], (1, 1, 1))]"
  have src: "0 \<noteq> stateID (entry 1 [0, 0] [0, 0] 0)" "(0::int) \<le> 0"
    "0 < int (length (state_ID_to_coord_table bent_data))"
    by (simp_all add: entry_def bent_defs)
  have joints: "\<forall>cand \<in> set ?cands. length (fst (snd cand)) = length (angles (entry 1 [0, 0] [0, 0] 0))"
    by (simp add: entry_def)
  have d: "integer_distances two_joints [LONG_RANGE_JOINT_DIFF, LONG_RANGE_JOINT_DIFF]
             (angles (entry 1 [0, 0] [0, 0] 0)) = [1, 1]"
    "integer_distances two_joints [2 * LONG_RANGE_JOINT_DIFF, 0] (angles (entry 1 [0, 0] [0, 0] 0)) = [2, 0]"
    by (simp_all add: integer_distances_def entry_def arm_defs bounded_integer_distance_def upt_conv_Cons)
  have m: "maxInt_is_one two_joints [LONG_RANGE_JOINT_DIFF, LONG_RANGE_JOINT_DIFF] (angles (entry 1 [0, 0] [0, 0] 0))"
    "\<not> maxInt_is_one two_joints [2 * LONG_RANGE_JOINT_DIFF, 0] (angles (entry 1 [0, 0] [0, 0] 0))"
    unfolding maxInt_is_one_def d by simp_all
  from GetSuccs_absorb_lookup_add [OF bent_reachable bent_goal src bent_candidates joints]
  obtain pd' succs where g: "GetSuccs two_joints bent_data 0 = Some (pd', succs)"
    and p: "list_all2 (placed two_joints (entry 1 [0, 0] [0, 0] 0) pd') ?cands succs"
    by blast
  have "succs = [(2, 1000), (1, 1000), (3, 1000), (4, 1000)]"
    using bent_successors g by (simp add: successors_def)
  then show ?thesis using bent_reachable bent_goal d m g p by blast
qed

text \<open>
  Claim C7 as stated does not hold. An empty result does not single out the goal: for
  a joint whose every candidate collides, the expansion of the start state (ID 0, the
  goal has ID 1) is empty; so is the expansion of an ID beyond the table (lines
  155-159). And a state can be its own successor: with buckets of width 0.5 both
  candidates generated from the start state \<open>0.5\<close>, which are \<open>0.6\<close> and \<open>0.4\<close>, fall
  into its bucket, the lookup of line 270 finds the start state, and its expansion
  returns its own ID twice.
\<close>

theorem GetSuccs_empty_counterexample:
  "setup_result blocked_joint (free_scene [0] [1/2]) = None \<and>
   start_and_goal_id (setup_data blocked_joint (free_scene [0] [1/2])) = (Some 0, Some 1) \<and>
   successors (GetSuccs blocked_joint (setup_data blocked_joint (free_scene [0] [1/2])) 0) = Some [] \<and>
   successors (GetSuccs blocked_joint (setup_data blocked_joint (free_scene [0] [1/2])) 7) = Some [] \<and>
   setup_result coarse_joint (free_scene [1 / 2] [1]) = None \<and>
   start_and_goal_id coarse_data = (Some 0, Some 1) \<and>
   coords_by_id coarse_data = [[1], [2]] \<and>
   successors (GetSuccs coarse_joint coarse_data 0) = Some [(0, 1000), (0, 1000)]"
  by (simp add: coarse_data_def arm_defs expansion_defs)

text \<open>
  Claim C7, amended. After a successful setup and any number of expansions the goal
  has ID 1; the expansion of the goal is empty and changes nothing, and so is the
  expansion of an ID beyond the table. The expansion of any other state of the table
  returns one pair for each candidate that survives primitive generation, the collision
  check and the voxel bounds, so it is empty exactly when every candidate is pruned. It
  does not contain the state itself, provided no candidate generated from the state falls
  into the discretisation bucket of the state itself.
\<close>

theorem GetSuccs_goal_absorbing_no_self:
  assumes reach: "reachable env sc pd"
  shows "start_and_goal_id pd = (Some 0, Some 1) \<and>
         GetSuccs env pd 1 = Some (pd, []) \<and>
         (\<forall>sid. sid > int (length (state_ID_to_coord_table pd)) - 1 \<longrightarrow> GetSuccs env pd sid = Some (pd, [])) \<and>
         (\<forall>sid. 0 \<le> sid \<and> sid < int (length (state_ID_to_coord_table pd)) \<and> sid \<noteq> 1
            \<longrightarrow> (\<exists>pd' succs. GetSuccs env pd sid = Some (pd', succs) \<and>
                   length succs =
                   length (surviving_candidates env (angles (state_ID_to_coord_table pd ! nat sid)) 0
                             (possible_actions env)))) \<and>
         (\<forall>sid. 0 \<le> sid \<and> sid < int (length (state_ID_to_coord_table pd)) \<and> sid \<noteq> 1 \<and>
                (\<forall>act \<in> set (possible_actions env). \<forall>cand.
                    act (angles (state_ID_to_coord_table pd ! nat sid)) = Some cand \<longrightarrow>
                    convertJointAnglesToCoord env cand \<noteq> coord (state_ID_to_coord_table pd ! nat sid))
            \<longrightarrow> (\<exists>pd' succs. GetSuccs env pd sid = Some (pd', succs) \<and> sid \<notin> fst ` set succs))"
proof -
  let ?T = "state_ID_to_coord_table pd"
  have inv: "table_invariant env pd" using reachable_invariant [OF reach] by blast
  have a: "\<forall>i < length ?T. stateID (?T ! i) = int i"
    and len: "2 \<le> length ?T"
    and sp: "start_hash_entry pd = Some (?T ! 0)" and gp: "goal_hash_entry pd = Some (?T ! 1)"
    using inv unfolding table_invariant_def by blast+
  have pos: "0 < length ?T" "1 < length ?T" using len by linarith+
  have ids: "stateID (?T ! 0) = 0" "stateID (?T ! 1) = 1"
    using a [rule_format, OF pos(1)] a [rule_format, OF pos(2)] by simp_all
  have sg: "start_and_goal_id pd = (Some 0, Some 1)"
    using sp gp ids by (simp add: start_and_goal_id_def)
  have goal1: "GetSuccs env pd 1 = Some (pd, [])" using gp ids by (simp add: GetSuccs_def)
  have out: "\<forall>sid. sid > int (length ?T) - 1 \<longrightarrow> GetSuccs env pd sid = Some (pd, [])"
    using gp by (simp add: GetSuccs_def)
  have expansion: "\<exists>pd' succs. GetSuccs env pd sid = Some (pd', succs) \<and>
      table_invariant env pd' \<and> (\<exists>ext. state_ID_to_coord_table pd' = ?T @ ext) \<and>
      list_all2 (expanded env (?T ! 1) pd')
        (surviving_candidates env (angles (?T ! nat sid)) 0 (possible_actions env)) succs"
    if sid: "0 \<le> sid" "sid < int (length ?T)" "sid \<noteq> 1" for sid
  proof -
    let ?cands = "surviving_candidates env (angles (?T ! nat sid)) 0 (possible_actions env)"
    obtain pd' succs where f: "foldl (expand_candidate env (?T ! 1)) (pd, []) ?cands = (pd', succs)"
      by (cases "foldl (expand_candidate env (?T ! 1)) (pd, []) ?cands") auto
    have ne: "sid \<noteq> stateID (?T ! 1)" using sid(3) ids by simp
    have g: "GetSuccs env pd sid = Some (pd', succs)"
      using GetSuccs_fold [OF gp ne sid(1,2), of env] f by simp
    from fold_expand [OF inv gp f] g show ?thesis by auto
  qed
  have count: "\<exists>pd' succs. GetSuccs env pd sid = Some (pd', succs) \<and>
                 length succs =
                 length (surviving_candidates env (angles (?T ! nat sid)) 0 (possible_actions env))"
    if sid: "0 \<le> sid" "sid < int (length ?T)" "sid \<noteq> 1" for sid
  proof -
    from expansion [OF sid] obtain pd' succs where
      g: "GetSuccs env pd sid = Some (pd', succs)"
      and l: "list_all2 (expanded env (?T ! 1) pd')
        (surviving_candidates env (angles (?T ! nat sid)) 0 (possible_actions env)) succs"
      by blast
    from l have "length (surviving_candidates env (angles (?T ! nat sid)) 0 (possible_actions env)) =
                 length succs" by (rule list_all2_lengthD)
    then show ?thesis using g by simp
  qed
  have noself: "\<exists>pd' succs. GetSuccs env pd sid = Some (pd', succs) \<and> sid \<notin> fst ` set succs"
    if sid: "0 \<le> sid" "sid < int (length ?T)" "sid \<noteq> 1"
      and moves: "\<forall>act \<in> set (possible_actions env). \<forall>cand.
                    act (angles (?T ! nat sid)) = Some cand \<longrightarrow>
                    convertJointAnglesToCoord env cand \<noteq> coord (?T ! nat sid)"
    for sid
  proof -
    let ?cands = "surviving_candidates env (angles (?T ! nat sid)) 0 (possible_actions env)"
    have ne: "sid \<noteq> stateID (?T ! 1)" using sid(3) ids by simp
    from expansion [OF sid] obtain pd' succs ext where
      g: "GetSuccs env pd sid = Some (pd', succs)" and
      r: "table_invariant env pd'" "state_ID_to_coord_table pd' = ?T @ ext"
         "list_all2 (expanded env (?T ! 1) pd') ?cands succs"
      by blast
    let ?T' = "state_ID_to_coord_table pd'"
    have a': "\<forall>i < length ?T'. stateID (?T' ! i) = int i"
      and b': "\<forall>c e. coord_to_state_ID_table pd' c = Some e \<longrightarrow> e \<in> set ?T' \<and> coord e = c"
      using r(1) unfolding table_invariant_def by blast+
    have "sid \<notin> fst ` set succs"
    proof
      assume "sid \<in> fst ` set succs"
      then obtain n where n: "n < length succs" "fst (succs ! n) = sid"
        by (auto simp: in_set_conv_nth)
      have ln: "length ?cands = length succs" using r(3) by (rule list_all2_lengthD)
      have pl: "expanded env (?T ! 1) pd' (?cands ! n) (succs ! n)"
        using r(3) n(1) by (simp add: list_all2_conv_all_nth)
      obtain i c v where cn: "?cands ! n = (i, c, v)" by (cases "?cands ! n") auto
      then have "(i, c, v) \<in> set ?cands" using n(1) ln by (metis nth_mem)
      from surviving_generated [OF this] obtain act where
        act: "act \<in> set (possible_actions env)" "act (angles (?T ! nat sid)) = Some c" by blast
      have diff: "convertJointAnglesToCoord env c \<noteq> coord (?T ! nat sid)"
        using moves act by blast
      have far: "getJointDistanceIntegerMax env c (angles (?T ! 1)) \<noteq> 1"
        using pl n(2) ne cn unfolding expanded_def by auto
      then obtain e where e: "coord_to_state_ID_table pd' (convertJointAnglesToCoord env c) = Some e"
        "stateID e = sid"
        using pl n(2) cn unfolding expanded_def by auto
      then have "e \<in> set ?T'" and ce: "coord e = convertJointAnglesToCoord env c" using b' by blast+
      then obtain m where m: "m < length ?T'" "?T' ! m = e" by (auto simp: in_set_conv_nth)
      then have "int m = sid" using a' e(2) by auto
      then have "m = nat sid" by simp
      moreover have "nat sid < length ?T" using sid by simp
      ultimately have "e = ?T ! nat sid" using m(2) r(2) by (simp add: nth_append)
      then show False using ce diff by simp
    qed
    then show ?thesis using g by blast
  qed
  have c4: "\<forall>sid. 0 \<le> sid \<and> sid < int (length ?T) \<and> sid \<noteq> 1
            \<longrightarrow> (\<exists>pd' succs. GetSuccs env pd sid = Some (pd', succs) \<and>
                   length succs =
                   length (surviving_candidates env (angles (?T ! nat sid)) 0 (possible_actions env)))"
    using count by blast
  have c5: "\<forall>sid. 0 \<le> sid \<and> sid < int (length ?T) \<and> sid \<noteq> 1 \<and>
                (\<forall>act \<in> set (possible_actions env). \<forall>cand.
                    act (angles (?T ! nat sid)) = Some cand \<longrightarrow>
                    convertJointAnglesToCoord env cand \<noteq> coord (?T ! nat sid))
            \<longrightarrow> (\<exists>pd' succs. GetSuccs env pd sid = Some (pd', succs) \<and> sid \<notin> fst ` set succs)"
    using noself by blast
  show ?thesis by (intro conjI sg goal1 out c4 c5)
qed

lemma bent_moves:
  "\<forall>act \<in> set (possible_actions two_joints). \<forall>cand.
      act (angles (state_ID_to_coord_table bent_data ! nat 0)) = Some cand \<longrightarrow>
      convertJointAnglesToCoord two_joints cand \<noteq> coord (state_ID_to_coord_table bent_data ! nat 0)"
  by (auto simp: bent_defs setMotionPrimitives_def upt_conv_Cons single_joint_primitive_def
        split: if_splits)

text \<open>
  The theorem at work on the two-joint arm: the goal and an ID beyond the table have no
  successors, and the start state has one for each of its four candidates, none of them
  the start state.
\<close>

theorem GetSuccs_goal_absorbing_no_self_witness:
  "reachable two_joints bent_scene bent_data \<and>
   start_and_goal_id bent_data = (Some 0, Some 1) \<and>
   GetSuccs two_joints bent_data 1 = Some (bent_data, []) \<and>
   GetSuccs two_joints bent_data 9 = Some (bent_data, []) \<and>
   length (surviving_candidates two_joints (angles (state_ID_to_coord_table bent_data ! nat 0)) 0
             (possible_actions two_joints)) = 4 \<and>
   (\<exists>pd' succs. GetSuccs two_joints bent_data 0 = Some (pd', succs) \<and>
      succs = [(2, 1000), (1, 1000), (3, 1000), (4, 1000)] \<and> length succs = 4 \<and>
      0 \<notin> fst ` set succs)"
proof -
  have rng: "(0::int) \<le> 0 \<and> 0 < int (length (state_ID_to_coord_table bent_data)) \<and> (0::int) \<noteq> 1"
    "(9::int) > int (length (state_ID_to_coord_table bent_data)) - 1"
    by (simp_all add: bent_defs)
  have four: "length (surviving_candidates two_joints (angles (state_ID_to_coord_table bent_data ! nat 0)) 0
             (possible_actions two_joints)) = 4"
    unfolding bent_candidates [symmetric] by simp
  from GetSuccs_goal_absorbing_no_self [OF bent_reachable] rng bent_moves
  have f: "start_and_goal_id bent_data = (Some 0, Some 1)"
    "GetSuccs two_joints bent_data 1 = Some (bent_data, [])"
    "GetSuccs two_joints bent_data 9 = Some (bent_data, [])"
    "\<exists>pd' succs. GetSuccs two_joints bent_data 0 = Some (pd', succs) \<and> sid0 = sid0 \<and>
       length succs = length (surviving_candidates two_joints
          (angles (state_ID_to_coord_table bent_data ! nat 0)) 0 (possible_actions two_joints))"
    "\<exists>pd' succs. GetSuccs two_joints bent_data 0 = Some (pd', succs) \<and> 0 \<notin> fst ` set succs"
    by blast+
  then obtain pd' succs where g: "GetSuccs two_joints bent_data 0 = Some (pd', succs)"
    "0 \<notin> fst ` set succs" by blast
  have "succs = [(2, 1000), (1, 1000), (3, 1000), (4, 1000)]"
    using bent_successors g(1) by (simp add: successors_def)
  then show ?thesis using bent_reachable f(1,2,3) four g by auto
qed

section \<open>The heuristic\<close>
















end
